theory Spec2Isabelle
  imports Complex_Main
begin

section \<open>JavaScript numbers\<close>

text \<open>
  The picker computes with JavaScript numbers. They are modelled by the real numbers
  extended with the three non-finite values of the language: arithmetic on finite values
  is exact (no binary64 rounding, no overflow, one zero), and the non-finite values
  arise and propagate as in the language: \<open>0 / 0\<close> is \<open>NaN\<close>, a non-zero number divided
  by zero is an infinity, every comparison with \<open>NaN\<close> is false. The decimal constants
  of the source (\<open>0.5\<close>, \<open>0.01\<close>, \<open>1/3\<close>, ...) stand for the rationals they denote.
\<close>

datatype jsnum = Fin real | PInf | NInf | NaN

fun js_neg :: "jsnum \<Rightarrow> jsnum" where
  "js_neg (Fin x) = Fin (- x)"
| "js_neg PInf = NInf"
| "js_neg NInf = PInf"
| "js_neg NaN = NaN"

fun js_add :: "jsnum \<Rightarrow> jsnum \<Rightarrow> jsnum" where
  "js_add (Fin x) (Fin y) = Fin (x + y)"
| "js_add NaN _ = NaN"
| "js_add _ NaN = NaN"
| "js_add PInf NInf = NaN"
| "js_add NInf PInf = NaN"
| "js_add PInf _ = PInf"
| "js_add _ PInf = PInf"
| "js_add NInf _ = NInf"
| "js_add _ NInf = NInf"

fun js_sub :: "jsnum \<Rightarrow> jsnum \<Rightarrow> jsnum" where
  "js_sub (Fin x) (Fin y) = Fin (x - y)"
| "js_sub x y = js_add x (js_neg y)"

text \<open>The sign of a number, for the products and quotients with an infinity.\<close>

fun js_sign :: "jsnum \<Rightarrow> int" where
  "js_sign (Fin x) = (if x < 0 then - 1 else if x = 0 then 0 else 1)"
| "js_sign PInf = 1"
| "js_sign NInf = - 1"
| "js_sign NaN = 0"

definition signed_inf :: "int \<Rightarrow> jsnum" where
  "signed_inf k = (if k = 0 then NaN else if k < 0 then NInf else PInf)"

fun js_mul :: "jsnum \<Rightarrow> jsnum \<Rightarrow> jsnum" where
  "js_mul (Fin x) (Fin y) = Fin (x * y)"
| "js_mul NaN _ = NaN"
| "js_mul _ NaN = NaN"
| "js_mul x y = signed_inf (js_sign x * js_sign y)"

text \<open>
  Division. A finite non-zero number divided by zero is the infinity of its sign (the
  model has the positive zero only), \<open>0 / 0\<close> and the quotient of two infinities are
  \<open>NaN\<close>, a finite number divided by an infinity is zero.
\<close>

fun js_div :: "jsnum \<Rightarrow> jsnum \<Rightarrow> jsnum" where
  "js_div (Fin x) (Fin y) = (if y = 0 then signed_inf (js_sign (Fin x)) else Fin (x / y))"
| "js_div NaN _ = NaN"
| "js_div _ NaN = NaN"
| "js_div (Fin x) _ = Fin 0"
| "js_div x (Fin y) = signed_inf (js_sign x * (if y < 0 then - 1 else 1))"
| "js_div _ _ = NaN"

text \<open>The relational operators \<open><\<close> and \<open>>\<close>, and strict equality \<open>===\<close> on numbers.\<close>

fun js_lt :: "jsnum \<Rightarrow> jsnum \<Rightarrow> bool" where
  "js_lt (Fin x) (Fin y) = (x < y)"
| "js_lt NaN _ = False"
| "js_lt _ NaN = False"
| "js_lt NInf NInf = False"
| "js_lt NInf _ = True"
| "js_lt _ NInf = False"
| "js_lt PInf _ = False"
| "js_lt _ PInf = True"

definition js_gt :: "jsnum \<Rightarrow> jsnum \<Rightarrow> bool" where
  "js_gt x y = js_lt y x"

fun js_eq :: "jsnum \<Rightarrow> jsnum \<Rightarrow> bool" where
  "js_eq NaN _ = False"
| "js_eq _ NaN = False"
| "js_eq x y = (x = y)"

text \<open>\<open>Math.max\<close> and \<open>Math.min\<close>: \<open>NaN\<close> as soon as one argument is.\<close>

fun Math_max :: "jsnum \<Rightarrow> jsnum \<Rightarrow> jsnum" where
  "Math_max NaN _ = NaN"
| "Math_max _ NaN = NaN"
| "Math_max x y = (if js_lt x y then y else x)"

fun Math_min :: "jsnum \<Rightarrow> jsnum \<Rightarrow> jsnum" where
  "Math_min NaN _ = NaN"
| "Math_min _ NaN = NaN"
| "Math_min x y = (if js_lt y x then y else x)"

text \<open>\<open>Math.round\<close> rounds to the nearest integer, a half towards \<open>+\<infinity>\<close>.\<close>

fun Math_round :: "jsnum \<Rightarrow> jsnum" where
  "Math_round (Fin x) = Fin (of_int \<lfloor>x + 1 / 2\<rfloor>)"
| "Math_round x = x"

text \<open>
  The remainder operator \<open>%\<close>: the result has the sign of the dividend (the quotient is
  truncated towards zero).
\<close>

definition trunc :: "real \<Rightarrow> int" where
  "trunc x = (if x < 0 then \<lceil>x\<rceil> else \<lfloor>x\<rfloor>)"

fun js_rem :: "jsnum \<Rightarrow> jsnum \<Rightarrow> jsnum" where
  "js_rem (Fin x) (Fin y) = (if y = 0 then NaN else Fin (x - y * of_int (trunc (x / y))))"
| "js_rem (Fin x) PInf = Fin x"
| "js_rem (Fin x) NInf = Fin x"
| "js_rem _ _ = NaN"

section \<open>Colour conversions\<close>

text \<open>
  \<open>rgbToHsl\<close>. The \<open>switch (max)\<close> compares with \<open>===\<close> and takes the first case that
  matches; when none does (\<open>max\<close> is \<open>NaN\<close>) \<open>h\<close> stays undefined and \<open>h /= 6\<close>
  makes it \<open>NaN\<close>.
\<close>

definition rgbToHsl :: "jsnum \<Rightarrow> jsnum \<Rightarrow> jsnum \<Rightarrow> jsnum \<times> jsnum \<times> jsnum" where
  "rgbToHsl r0 g0 b0 =
    (let r = js_div r0 (Fin 255); g = js_div g0 (Fin 255); b = js_div b0 (Fin 255);
         mx = Math_max (Math_max r g) b; mn = Math_min (Math_min r g) b;
         l = js_div (js_add mx mn) (Fin 2)
     in if js_eq mx mn then (Fin 0, Fin 0, l)
        else
          let d = js_sub mx mn;
              s = (if js_gt l (Fin (1 / 2)) then js_div d (js_sub (js_sub (Fin 2) mx) mn)
                   else js_div d (js_add mx mn));
              h = (if js_eq mx r then
                     js_add (js_div (js_sub g b) d) (if js_lt g b then Fin 6 else Fin 0)
                   else if js_eq mx g then js_add (js_div (js_sub b r) d) (Fin 2)
                   else if js_eq mx b then js_add (js_div (js_sub r g) d) (Fin 4)
                   else NaN)
          in (js_div h (Fin 6), s, l))"

definition hue2rgb :: "jsnum \<Rightarrow> jsnum \<Rightarrow> jsnum \<Rightarrow> jsnum" where
  "hue2rgb p q t0 =
    (let t1 = (if js_lt t0 (Fin 0) then js_add t0 (Fin 1) else t0);
         t = (if js_gt t1 (Fin 1) then js_sub t1 (Fin 1) else t1)
     in if js_lt t (Fin (1 / 6)) then js_add p (js_mul (js_mul (js_sub q p) (Fin 6)) t)
        else if js_lt t (Fin (1 / 2)) then q
        else if js_lt t (Fin (2 / 3)) then
          js_add p (js_mul (js_mul (js_sub q p) (js_sub (Fin (2 / 3)) t)) (Fin 6))
        else p)"

definition hslToRgb :: "jsnum \<Rightarrow> jsnum \<Rightarrow> jsnum \<Rightarrow> jsnum \<times> jsnum \<times> jsnum" where
  "hslToRgb h s l =
    (let (r, g, b) =
       (if js_eq s (Fin 0) then (js_mul l (Fin 255), js_mul l (Fin 255), js_mul l (Fin 255))
        else
          let q = (if js_lt l (Fin (1 / 2)) then js_mul l (js_add (Fin 1) s)
                   else js_sub (js_add l s) (js_mul l s));
              p = js_sub (js_mul (Fin 2) l) q
          in (js_mul (hue2rgb p q (js_add h (Fin (1 / 3)))) (Fin 255),
              js_mul (hue2rgb p q h) (Fin 255),
              js_mul (hue2rgb p q (js_sub h (Fin (1 / 3)))) (Fin 255)))
     in (Math_round r, Math_round g, Math_round b))"

section \<open>Textual encodings\<close>

text \<open>
  Strings are lists of 8-bit characters; the characters that the functions below tell
  apart are ASCII. \<open>index_of\<close> gives the position of a character in an alphabet; the
  digit values and the upper-case mapping (of the ASCII letters, the only ones that
  \<open>rgbToHex\<close> can print) are read off alphabets.
\<close>

fun index_of :: "char \<Rightarrow> string \<Rightarrow> nat option" where
  "index_of c [] = None"
| "index_of c (x # xs) = (if c = x then Some 0 else map_option Suc (index_of c xs))"

definition is_digit :: "char \<Rightarrow> bool" where
  "is_digit c = (index_of c ''0123456789'' \<noteq> None)"

text \<open>The class \<^verbatim>\<open>[a-f\d]\<close> under the flag \<open>i\<close>, with the value of each digit.\<close>

definition hexDigitValue :: "char \<Rightarrow> nat option" where
  "hexDigitValue c =
    (case index_of c ''0123456789abcdef'' of
       Some i \<Rightarrow> Some i
     | None \<Rightarrow> map_option (\<lambda>i. 10 + i) (index_of c ''ABCDEF''))"

definition is_hex :: "char \<Rightarrow> bool" where
  "is_hex c = (hexDigitValue c \<noteq> None)"

text \<open>
  \<open>parseInt(s, 16)\<close> reads the longest prefix of hexadecimal digits, and is \<open>NaN\<close> when
  there is none. (The source applies it to the groups of the regular expression, which
  are two hexadecimal digits; signs, white space and a \<open>0x\<close> prefix cannot occur.)
\<close>

fun hex_prefix_value :: "nat \<Rightarrow> string \<Rightarrow> nat" where
  "hex_prefix_value acc [] = acc"
| "hex_prefix_value acc (c # cs) =
    (case hexDigitValue c of
       None \<Rightarrow> acc
     | Some v \<Rightarrow> hex_prefix_value (16 * acc + v) cs)"

definition parseInt16 :: "string \<Rightarrow> jsnum" where
  "parseInt16 str =
    (case str of
       [] \<Rightarrow> NaN
     | c # cs \<Rightarrow> if is_hex c then Fin (of_nat (hex_prefix_value 0 str)) else NaN)"

text \<open>
  \<open>hexToRgb\<close>. The regular expression
  \<^verbatim>\<open>/^#?([a-f\d]{2})([a-f\d]{2})([a-f\d]{2})([a-f\d]{2})?$/i\<close>
  matches an optional \<open>#\<close> followed by exactly six or exactly eight hexadecimal digits;
  \<open>hex_groups\<close> returns the digits after the optional \<open>#\<close>, or \<open>None\<close> when the
  expression does not match. The object \<open>{r, g, b, a}\<close> is the tuple \<open>(r, g, b, a)\<close>.
\<close>

definition hex_groups :: "string \<Rightarrow> string option" where
  "hex_groups hex =
    (let body = (case hex of c # cs \<Rightarrow> if c = CHR ''#'' then cs else hex | [] \<Rightarrow> hex)
     in if (length body = 6 \<or> length body = 8) \<and> list_all is_hex body then Some body
        else None)"

definition hexToRgb :: "string \<Rightarrow> jsnum \<times> jsnum \<times> jsnum \<times> jsnum" where
  "hexToRgb hex =
    (case hex_groups hex of
       None \<Rightarrow> (Fin 0, Fin 0, Fin 0, Fin 1)
     | Some body \<Rightarrow>
         (parseInt16 (take 2 body),
          parseInt16 (take 2 (drop 2 body)),
          parseInt16 (take 2 (drop 4 body)),
          if length body = 8 then js_div (parseInt16 (take 2 (drop 6 body))) (Fin 255)
          else Fin 1))"

text \<open>
  \<^verbatim>\<open>colorString.match(/[\d.]+/g)\<close>: the maximal runs of digits and dots, from left to
  right (the empty list stands for the \<open>null\<close> of no match).
\<close>

definition is_num_char :: "char \<Rightarrow> bool" where
  "is_num_char c = (is_digit c \<or> c = CHR ''.'')"

fun match_runs :: "string \<Rightarrow> string \<Rightarrow> string list" where
  "match_runs cur [] = (if cur = [] then [] else [cur])"
| "match_runs cur (c # cs) =
    (if is_num_char c then match_runs (cur @ [c]) cs
     else (if cur = [] then [] else [cur]) @ match_runs [] cs)"

text \<open>
  Unary \<open>+\<close> on such a run. A run of digits and dots is a numeric literal when it has
  at most one dot and at least one digit (\<open>12\<close>, \<open>12.\<close>, \<open>12.5\<close>, \<open>.5\<close>); otherwise the
  conversion gives \<open>NaN\<close> (\<open>.\<close>, \<open>1.2.3\<close>). The function is the conversion on
  these runs only: it is not applied to other strings.
\<close>

fun decimal_value :: "nat \<Rightarrow> string \<Rightarrow> nat" where
  "decimal_value acc [] = acc"
| "decimal_value acc (c # cs) =
    (case index_of c ''0123456789'' of
       None \<Rightarrow> acc
     | Some v \<Rightarrow> decimal_value (10 * acc + v) cs)"

definition to_number :: "string \<Rightarrow> jsnum" where
  "to_number str =
    (let ip = takeWhile is_digit str; rest = dropWhile is_digit str
     in case rest of
          [] \<Rightarrow> Fin (of_nat (decimal_value 0 ip))
        | c # fp \<Rightarrow>
            if c = CHR ''.'' \<and> list_all is_digit fp \<and> (ip \<noteq> [] \<or> fp \<noteq> []) then
              Fin (of_nat (decimal_value 0 ip) + of_nat (decimal_value 0 fp) / 10 ^ length fp)
            else NaN)"

text \<open>
  The argument of \<open>parseColor\<close> is any value of the language; all that the function
  asks of it is whether it is a string.
\<close>

datatype js_value = JString string | JNotString

definition parseColor :: "js_value \<Rightarrow> jsnum \<times> jsnum \<times> jsnum \<times> jsnum" where
  "parseColor colorString =
    (case colorString of
       JNotString \<Rightarrow> (Fin 0, Fin 0, Fin 0, Fin 1)
     | JString str \<Rightarrow>
         (let parts = match_runs [] str
          in if take 3 str = ''rgb'' \<and> length parts \<ge> 3 then
               (to_number (parts ! 0), to_number (parts ! 1), to_number (parts ! 2),
                if length parts > 3 then to_number (parts ! 3) else Fin 1)
             else if take 1 str = ''#'' then hexToRgb str
             else (Fin 0, Fin 0, Fin 0, Fin 1)))"

text \<open>
  \<open>rgbToHex\<close>. \<open>toHex\<close> is \<open>('0' + Math.round(c).toString(16)).slice(-2)\<close>; the
  number printed is an integer or not finite, since it is rounded first. The parameter
  \<open>a\<close> may be \<open>undefined\<close> (\<open>None\<close>).
\<close>

fun hex_of_nat :: "nat \<Rightarrow> string" where
  "hex_of_nat n =
    (if n < 16 then [''0123456789abcdef'' ! n]
     else hex_of_nat (n div 16) @ [''0123456789abcdef'' ! (n mod 16)])"

declare hex_of_nat.simps [simp del]

definition toString16 :: "jsnum \<Rightarrow> string" where
  "toString16 x =
    (case x of
       Fin v \<Rightarrow> if v < 0 then CHR ''-'' # hex_of_nat (nat (- \<lfloor>v\<rfloor>)) else hex_of_nat (nat \<lfloor>v\<rfloor>)
     | PInf \<Rightarrow> ''Infinity''
     | NInf \<Rightarrow> ''-Infinity''
     | NaN \<Rightarrow> ''NaN'')"

definition slice_last2 :: "string \<Rightarrow> string" where
  "slice_last2 str = drop (length str - 2) str"

definition toHex :: "jsnum \<Rightarrow> string" where
  "toHex c = slice_last2 (CHR ''0'' # toString16 (Math_round c))"

definition toUpperCase_char :: "char \<Rightarrow> char" where
  "toUpperCase_char c =
    (case index_of c ''abcdefghijklmnopqrstuvwxyz'' of
       None \<Rightarrow> c
     | Some i \<Rightarrow> ''ABCDEFGHIJKLMNOPQRSTUVWXYZ'' ! i)"

definition toUpperCase :: "string \<Rightarrow> string" where
  "toUpperCase str = map toUpperCase_char str"

definition rgbToHex :: "jsnum \<Rightarrow> jsnum \<Rightarrow> jsnum \<Rightarrow> jsnum option \<Rightarrow> string" where
  "rgbToHex r g b a =
    (let hex = CHR ''#'' # toHex r @ toHex g @ toHex b;
         hex' = (case a of
                   None \<Rightarrow> hex
                 | Some av \<Rightarrow> if \<not> js_eq av (Fin 1) then hex @ toHex (js_mul av (Fin 255)) else hex)
     in toUpperCase hex')"

section \<open>The picker's state\<close>

text \<open>
  The module keeps its state in variables of its closure: the live colour
  \<open>colorState\<close>, three snapshots, the stored callback, the drag flags and the edit
  mode. A snapshot is either the empty object \<open>{}\<close> it is initialised with (\<open>None\<close>) or
  a copy of a complete colour. Every assignment of the source copies the four fields
  (\<open>Object.assign\<close>, object spread), so no two of these objects are ever aliased and
  values model them.

  Of the page, the model keeps what the state transitions read: whether the module
  element has the class \<open>is-open\<close>, and the widths of the two canvases. What the
  handlers read from the page at the time of an event is the record \<open>dom\<close>. Painting
  the canvases, styling the swatches, the localised texts and the text outputs change
  nothing that the transitions read, and are left out.

  The callback is a function of the caller: the model names it by a number and
  records each invocation with its argument, in order, in \<open>invocations\<close>. An invocation
  either returns normally or throws (\<open>outcome\<close>); which of the two is for the caller's
  code to decide, and comes with the click that invokes it. The callback is taken not
  to call back into the picker. In a configuration, \<open>onConfirm = None\<close> is a missing
  (falsy) callback.

  The fields \<open>h\<close>, \<open>s\<close>, \<open>l\<close>, \<open>a\<close> of a colour are \<open>cs_h\<close>, \<open>cs_s\<close>, \<open>cs_l\<close>, \<open>cs_a\<close>, and
  the function \<open>open\<close> of the module is \<open>open_picker\<close> (\<open>open\<close> is a constant of the
  library).
\<close>

record color_state =
  cs_h :: jsnum
  cs_s :: jsnum
  cs_l :: jsnum
  cs_a :: jsnum

datatype edit_mode = Swatch | Background

datatype outcome = Returns | Throws

type_synonym callback = nat

record config =
  originalColor :: js_value
  currentColor :: js_value
  onConfirm :: "callback option"

record picker =
  colorState :: color_state
  originalColorState :: "color_state option"
  previousColorState :: "color_state option"
  swatchStateCache :: "color_state option"
  onConfirmCallback :: "callback option"
  isDraggingWheel :: bool
  isDraggingLightness :: bool
  editMode :: edit_mode
  is_open :: bool
  wheel_width :: nat
  lightnessSlider_width :: nat
  invocations :: "(callback \<times> color_state option) list"

record dom =
  wheelWrapper_clientWidth :: nat
  wheel_left :: real
  wheel_top :: real
  lightnessSlider_left :: real
  comparisonBackground_backgroundColor :: string

text \<open>The state when the script has run, for canvases of the given widths.\<close>

definition initial_picker :: "nat \<Rightarrow> nat \<Rightarrow> picker" where
  "initial_picker w lw =
    \<lparr>colorState = \<lparr>cs_h = Fin 0, cs_s = Fin 1, cs_l = Fin (1 / 2), cs_a = Fin 1\<rparr>,
     originalColorState = None, previousColorState = None, swatchStateCache = None,
     onConfirmCallback = None, isDraggingWheel = False, isDraggingLightness = False,
     editMode = Swatch, is_open = False, wheel_width = w, lightnessSlider_width = lw,
     invocations = []\<rparr>"

text \<open>\<open>Object.assign(colorState, snapshot)\<close>: the empty object assigns nothing.\<close>

definition assign_colorState :: "color_state option \<Rightarrow> picker \<Rightarrow> picker" where
  "assign_colorState snapshot st =
    (case snapshot of None \<Rightarrow> st | Some c \<Rightarrow> st\<lparr>colorState := c\<rparr>)"

definition hsla_of_rgba :: "jsnum \<times> jsnum \<times> jsnum \<times> jsnum \<Rightarrow> color_state" where
  "hsla_of_rgba c =
    (case c of (r, g, b, a) \<Rightarrow>
       (case rgbToHsl r g b of (h, s, l) \<Rightarrow>
          \<lparr>cs_h = h, cs_s = s, cs_l = l, cs_a = a\<rparr>))"

section \<open>Operations\<close>

text \<open>\<open>render\<close>: in swatch mode the live colour is copied into \<open>swatchStateCache\<close>.\<close>

definition render :: "picker \<Rightarrow> picker" where
  "render st =
    (if editMode st = Swatch then st\<lparr>swatchStateCache := Some (colorState st)\<rparr> else st)"

definition setEditMode :: "dom \<Rightarrow> edit_mode \<Rightarrow> picker \<Rightarrow> picker" where
  "setEditMode d mode st =
    (let st1 = st\<lparr>editMode := mode\<rparr>;
         st2 = (if mode = Background then
                  st1\<lparr>colorState :=
                    hsla_of_rgba (parseColor (JString (comparisonBackground_backgroundColor d)))\<rparr>
                else assign_colorState (swatchStateCache st1) st1)
     in render st2)"

definition initialize :: "dom \<Rightarrow> picker \<Rightarrow> picker" where
  "initialize d st =
    (let size = wheelWrapper_clientWidth d
     in if size = 0 then st
        else render (st\<lparr>wheel_width := size, lightnessSlider_width := size\<rparr>))"

definition open_picker :: "dom \<Rightarrow> config \<Rightarrow> picker \<Rightarrow> picker" where
  "open_picker d cfg st =
    (let currentHsla = hsla_of_rgba (parseColor (currentColor cfg));
         st1 = st\<lparr>colorState := currentHsla,
                  previousColorState := Some currentHsla,
                  swatchStateCache := Some currentHsla,
                  originalColorState := Some (hsla_of_rgba (parseColor (originalColor cfg))),
                  onConfirmCallback := onConfirm cfg,
                  is_open := True\<rparr>
     in initialize d (setEditMode d Swatch st1))"

definition close :: "picker \<Rightarrow> picker" where
  "close st = st\<lparr>is_open := False, onConfirmCallback := None\<rparr>"

text \<open>
  \<open>confirm\<close> calls the stored callback, then \<open>close\<close>. The call is not guarded: when the
  callback throws, the exception leaves \<open>confirm\<close> before \<open>close\<close> runs, so the module
  stays open and the callback stays stored. The parameter is the outcome of the call,
  should there be one.
\<close>

definition confirm :: "outcome \<Rightarrow> picker \<Rightarrow> picker" where
  "confirm oc st =
    (case onConfirmCallback st of
       None \<Rightarrow> close st
     | Some cb \<Rightarrow>
         (let finalState =
                (if editMode st = Background then previousColorState st
                 else swatchStateCache st);
              st1 = st\<lparr>invocations := invocations st @ [(cb, finalState)]\<rparr>
          in case oc of Returns \<Rightarrow> close st1 | Throws \<Rightarrow> st1))"

text \<open>
  The pointer handlers. Pointer coordinates and the offsets of the bounding rectangles
  are finite numbers, and so are the sums, products and square roots of the handler;
  the one division is by the radius, which is zero for a canvas of width zero.
  \<open>Math.atan2\<close> on finite arguments is \<open>atan2\<close>.
\<close>

definition atan2 :: "real \<Rightarrow> real \<Rightarrow> real" where
  "atan2 y x =
    (if 0 < x then arctan (y / x)
     else if x < 0 then (if 0 \<le> y then arctan (y / x) + pi else arctan (y / x) - pi)
     else if 0 < y then pi / 2
     else if y < 0 then - pi / 2
     else 0)"

definition handleWheelMove :: "dom \<Rightarrow> real \<times> real \<Rightarrow> picker \<Rightarrow> picker" where
  "handleWheelMove d coords st =
    (let radius = real (wheel_width st) / 2;
         x = fst coords - wheel_left d; y = snd coords - wheel_top d;
         dx = x - radius; dy = y - radius;
         dist0 = sqrt (dx * dx + dy * dy);
         dist = (if dist0 > radius then radius else dist0);
         angle = atan2 dy dx;
         c = colorState st;
         c1 = c\<lparr>cs_h := js_rem (Fin (angle / (2 * pi) + 1)) (Fin 1),
                cs_s := js_div (Fin dist) (Fin radius)\<rparr>;
         c2 = (if js_eq (cs_l c1) (Fin 1) \<or> js_eq (cs_l c1) (Fin 0) then c1\<lparr>cs_l := Fin (1 / 2)\<rparr>
               else c1)
     in render (st\<lparr>colorState := c2\<rparr>))"

definition handleLightnessMove :: "dom \<Rightarrow> real \<times> real \<Rightarrow> picker \<Rightarrow> picker" where
  "handleLightnessMove d coords st =
    (let w = real (lightnessSlider_width st);
         x0 = fst coords - lightnessSlider_left d;
         x = max 0 (min x0 w)
     in render (st\<lparr>colorState := (colorState st)\<lparr>cs_l := js_div (Fin x) (Fin w)\<rparr>\<rparr>))"

text \<open>The two \<open>keydown\<close> handlers; \<open>shiftKey\<close> selects the step.\<close>

datatype key = ArrowLeft | ArrowRight | ArrowUp | ArrowDown | OtherKey

definition key_step :: "bool \<Rightarrow> jsnum" where
  "key_step shiftKey = (if shiftKey then Fin (5 / 100) else Fin (1 / 100))"

definition wheel_keydown :: "bool \<Rightarrow> key \<Rightarrow> picker \<Rightarrow> picker" where
  "wheel_keydown shiftKey k st =
    (let step = key_step shiftKey; c = colorState st
     in case k of
          ArrowLeft \<Rightarrow>
            render (st\<lparr>colorState :=
              c\<lparr>cs_h := js_rem (js_add (js_sub (cs_h c) step) (Fin 1)) (Fin 1)\<rparr>\<rparr>)
        | ArrowRight \<Rightarrow>
            render (st\<lparr>colorState := c\<lparr>cs_h := js_rem (js_add (cs_h c) step) (Fin 1)\<rparr>\<rparr>)
        | ArrowUp \<Rightarrow>
            render (st\<lparr>colorState := c\<lparr>cs_s := Math_min (Fin 1) (js_add (cs_s c) step)\<rparr>\<rparr>)
        | ArrowDown \<Rightarrow>
            render (st\<lparr>colorState := c\<lparr>cs_s := Math_max (Fin 0) (js_sub (cs_s c) step)\<rparr>\<rparr>)
        | OtherKey \<Rightarrow> st)"

definition lightness_keydown :: "bool \<Rightarrow> key \<Rightarrow> picker \<Rightarrow> picker" where
  "lightness_keydown shiftKey k st =
    (let step = key_step shiftKey; c = colorState st
     in case k of
          ArrowLeft \<Rightarrow>
            render (st\<lparr>colorState := c\<lparr>cs_l := Math_max (Fin 0) (js_sub (cs_l c) step)\<rparr>\<rparr>)
        | ArrowRight \<Rightarrow>
            render (st\<lparr>colorState := c\<lparr>cs_l := Math_min (Fin 1) (js_add (cs_l c) step)\<rparr>\<rparr>)
        | _ \<Rightarrow> st)"

text \<open>
  The events the module listens to, with what each carries, and the call of the public
  function \<open>open\<close>. \<open>OverlayClick\<close> carries the outcome of the callback's invocation, should
  the click invoke it; \<open>AlphaInput\<close> carries \<open>parseFloat(e.target.value)\<close>, the number the
  slider reports; \<open>EyeDropperResult\<close> carries the \<open>sRGBHex\<close> of a successful pick.
  A \<open>mousemove\<close> on the document runs the move handler of the wheel, then that of the
  lightness slider, each under its own drag flag.
\<close>

datatype event =
    Open config
  | OverlayClick outcome
  | WheelPointerDown "real \<times> real"
  | LightnessPointerDown "real \<times> real"
  | PointerMove "real \<times> real"
  | PointerUp
  | AlphaInput jsnum
  | WheelKeydown bool key
  | LightnessKeydown bool key
  | OriginalSwatchClick
  | RestoreClick
  | ChangeBgClick
  | EyeDropperResult string
  | WindowResize

fun step :: "dom \<Rightarrow> event \<Rightarrow> picker \<Rightarrow> picker" where
  "step d (Open cfg) st = open_picker d cfg st"
| "step d (OverlayClick oc) st = confirm oc st"
| "step d (WheelPointerDown coords) st = handleWheelMove d coords (st\<lparr>isDraggingWheel := True\<rparr>)"
| "step d (LightnessPointerDown coords) st =
    handleLightnessMove d coords (st\<lparr>isDraggingLightness := True\<rparr>)"
| "step d (PointerMove coords) st =
    (let st1 = (if isDraggingWheel st then handleWheelMove d coords st else st)
     in if isDraggingLightness st1 then handleLightnessMove d coords st1 else st1)"
| "step d PointerUp st = st\<lparr>isDraggingWheel := False, isDraggingLightness := False\<rparr>"
| "step d (AlphaInput v) st = render (st\<lparr>colorState := (colorState st)\<lparr>cs_a := v\<rparr>\<rparr>)"
| "step d (WheelKeydown shiftKey k) st = wheel_keydown shiftKey k st"
| "step d (LightnessKeydown shiftKey k) st = lightness_keydown shiftKey k st"
| "step d OriginalSwatchClick st =
    (if editMode st = Swatch then render (assign_colorState (originalColorState st) st) else st)"
| "step d RestoreClick st =
    (if editMode st = Swatch then render (assign_colorState (previousColorState st) st) else st)"
| "step d ChangeBgClick st =
    setEditMode d (if editMode st = Swatch then Background else Swatch) st"
| "step d (EyeDropperResult hex) st =
    (case hexToRgb hex of (r, g, b, a) \<Rightarrow>
       render (st\<lparr>colorState := hsla_of_rgba (r, g, b, Fin 1)\<rparr>))"
| "step d WindowResize st = initialize d st"

text \<open>A run: each event with the page's readings at its time, from left to right.\<close>

fun run :: "(dom \<times> event) list \<Rightarrow> picker \<Rightarrow> picker" where
  "run [] st = st"
| "run ((d, e) # es) st = run es (step d e st)"

section \<open>Sessions\<close>

text \<open>
  A session starts with a call of \<open>open\<close> and goes on until the next one.
  \<open>is_Open\<close> tells the call of \<open>open\<close> from the events of the page, \<open>is_OverlayClick\<close>
  the clicks on the overlay; \<open>callback_returns e\<close> says that the callback, if the event
  \<open>e\<close> invokes it, returns normally; \<open>pending\<close> counts the stored callback (one when
  there is one); \<open>example_dom\<close> is a page with a white comparison background, for the
  examples.
\<close>

fun is_Open :: "event \<Rightarrow> bool" where
  "is_Open (Open cfg) = True"
| "is_Open _ = False"

fun is_OverlayClick :: "event \<Rightarrow> bool" where
  "is_OverlayClick (OverlayClick oc) = True"
| "is_OverlayClick _ = False"

fun callback_returns :: "event \<Rightarrow> bool" where
  "callback_returns (OverlayClick Throws) = False"
| "callback_returns _ = True"

definition pending :: "picker \<Rightarrow> nat" where
  "pending st = (case onConfirmCallback st of None \<Rightarrow> 0 | Some cb \<Rightarrow> 1)"

definition example_dom :: dom where
  "example_dom =
    \<lparr>wheelWrapper_clientWidth = 300, wheel_left = 10, wheel_top = 20,
     lightnessSlider_left = 10, comparisonBackground_backgroundColor = ''rgb(255, 255, 255)''\<rparr>"

definition green_config :: config where
  "green_config =
    \<lparr>originalColor = JString ''#FF0000'', currentColor = JString ''#00FF00'', onConfirm = Some 7\<rparr>"

definition green :: color_state where
  "green = \<lparr>cs_h = Fin (1 / 3), cs_s = Fin 1, cs_l = Fin (1 / 2), cs_a = Fin 1\<rparr>"

section \<open>Notions of the specification\<close>

text \<open>
  The specification's words for the encodings. \<open>hex_byte n\<close> is the byte \<open>n < 256\<close> as
  two upper-case hexadecimal digits, and \<open>round_half_up\<close> the rounding of a non-negative
  number to the nearest natural number; \<open>#RRGGBB\<close> is \<open>#\<close> followed by three such bytes.
  A string is an \<open>rgb\<close>-prefixed string with three numbers when it starts with \<open>rgb\<close>
  and holds at least three numeric substrings, and well-formed hexadecimal when it is
  six or eight hexadecimal digits after an optional \<open>#\<close>. \<open>black\<close> is opaque black.
\<close>

definition hex_byte :: "nat \<Rightarrow> string" where
  "hex_byte n = [''0123456789ABCDEF'' ! (n div 16), ''0123456789ABCDEF'' ! (n mod 16)]"

definition round_half_up :: "real \<Rightarrow> nat" where
  "round_half_up x = nat \<lfloor>x + 1 / 2\<rfloor>"

definition rgb_with_three_numbers :: "string \<Rightarrow> bool" where
  "rgb_with_three_numbers str = (take 3 str = ''rgb'' \<and> length (match_runs [] str) \<ge> 3)"

definition wellformed_hex :: "string \<Rightarrow> bool" where
  "wellformed_hex str = (hex_groups str \<noteq> None)"

definition black :: "jsnum \<times> jsnum \<times> jsnum \<times> jsnum" where
  "black = (Fin 0, Fin 0, Fin 0, Fin 1)"

text \<open>
  \<open>within_one x c\<close>: the number \<open>x\<close> is finite and differs from the integer \<open>c\<close> by at
  most one. \<open>in_unit x\<close>: the number \<open>x\<close> is finite and lies in \<open>[0, 1]\<close>.
\<close>

definition within_one :: "jsnum \<Rightarrow> int \<Rightarrow> bool" where
  "within_one x c = (case x of Fin v \<Rightarrow> \<bar>v - of_int c\<bar> \<le> 1 | _ \<Rightarrow> False)"

definition in_unit :: "jsnum \<Rightarrow> bool" where
  "in_unit x = (case x of Fin v \<Rightarrow> 0 \<le> v \<and> v \<le> 1 | _ \<Rightarrow> False)"

text \<open>
  The invariant of the data model. A colour is in range (\<open>color_ok\<close>) when its four
  fields are finite numbers of \<open>[0, 1]\<close>. A parsed colour is in gamut when its three
  channels are finite numbers of \<open>[0, 255]\<close> and its alpha is in \<open>[0, 1]\<close>; a configuration
  is in gamut when both its colours parse so. An event is in range when what it brings
  from outside is: the configuration of a call of \<open>open\<close>, the number the alpha slider
  reports, the computed background colour that the mode switch reads. \<open>picker_ok\<close> adds
  to the live colour the snapshots, which are copied into it, and the widths of the two
  canvases, by which the pointer handlers divide.
\<close>

definition channel_ok :: "jsnum \<Rightarrow> bool" where
  "channel_ok x = (case x of Fin v \<Rightarrow> 0 \<le> v \<and> v \<le> 255 | _ \<Rightarrow> False)"

definition rgba_in_gamut :: "jsnum \<times> jsnum \<times> jsnum \<times> jsnum \<Rightarrow> bool" where
  "rgba_in_gamut c =
    (case c of (r, g, b, a) \<Rightarrow> channel_ok r \<and> channel_ok g \<and> channel_ok b \<and> in_unit a)"

definition color_ok :: "color_state \<Rightarrow> bool" where
  "color_ok c = (in_unit (cs_h c) \<and> in_unit (cs_s c) \<and> in_unit (cs_l c) \<and> in_unit (cs_a c))"

definition snapshot_ok :: "color_state option \<Rightarrow> bool" where
  "snapshot_ok snapshot = (case snapshot of None \<Rightarrow> True | Some c \<Rightarrow> color_ok c)"

definition config_ok :: "config \<Rightarrow> bool" where
  "config_ok cfg =
    (rgba_in_gamut (parseColor (currentColor cfg)) \<and> rgba_in_gamut (parseColor (originalColor cfg)))"

fun event_ok :: "dom \<Rightarrow> event \<Rightarrow> bool" where
  "event_ok d (Open cfg) = config_ok cfg"
| "event_ok d (AlphaInput v) = in_unit v"
| "event_ok d ChangeBgClick =
    rgba_in_gamut (parseColor (JString (comparisonBackground_backgroundColor d)))"
| "event_ok d _ = True"

definition picker_ok :: "picker \<Rightarrow> bool" where
  "picker_ok st =
    (color_ok (colorState st) \<and> snapshot_ok (originalColorState st)
     \<and> snapshot_ok (previousColorState st) \<and> snapshot_ok (swatchStateCache st)
     \<and> 0 < wheel_width st \<and> 0 < lightnessSlider_width st)"

section \<open>Evaluation and frame lemmas\<close>

lemma js_eq_Fin: "js_eq x (Fin v) = (x = Fin v)"
  by (cases x) simp_all

lemma parseColor_green: "parseColor (JString ''#00FF00'') = (Fin 0, Fin 255, Fin 0, Fin 1)"
  by (simp add: parseColor_def hexToRgb_def hex_groups_def parseInt16_def is_hex_def
      hexDigitValue_def)

lemma rgbToHsl_green: "rgbToHsl (Fin 0) (Fin 255) (Fin 0) = (Fin (1 / 3), Fin 1, Fin (1 / 2))"
  by (simp add: rgbToHsl_def Let_def)

lemmas open_defs =
  open_picker_def setEditMode_def initialize_def render_def assign_colorState_def Let_def

lemma open_swatchStateCache:
  "swatchStateCache (open_picker d cfg st) = Some (hsla_of_rgba (parseColor (currentColor cfg)))"
  by (simp add: open_defs)

lemma open_editMode: "editMode (open_picker d cfg st) = Swatch"
  by (simp add: open_defs)

lemma open_onConfirmCallback: "onConfirmCallback (open_picker d cfg st) = onConfirm cfg"
  by (simp add: open_defs)

lemma open_invocations: "invocations (open_picker d cfg st) = invocations st"
  by (simp add: open_defs)

lemma open_is_open: "is_open (open_picker d cfg st)"
  by (simp add: open_defs)

lemmas step_defs =
  handleWheelMove_def handleLightnessMove_def wheel_keydown_def lightness_keydown_def
  setEditMode_def initialize_def render_def assign_colorState_def confirm_def close_def Let_def

lemma step_invocations:
  "\<not> is_Open e \<Longrightarrow> \<not> is_OverlayClick e \<Longrightarrow> invocations (step d e st) = invocations st"
  by (cases e) (simp_all add: step_defs split: key.split option.split prod.split)

lemma step_onConfirmCallback:
  "\<not> is_Open e \<Longrightarrow> \<not> is_OverlayClick e \<Longrightarrow>
   onConfirmCallback (step d e st) = onConfirmCallback st"
  by (cases e) (simp_all add: step_defs split: key.split option.split prod.split)

lemma open_green:
  "swatchStateCache (open_picker d green_config st) = Some green"
  "onConfirmCallback (open_picker d green_config st) = Some 7"
  by (simp_all add: open_swatchStateCache open_onConfirmCallback green_config_def green_def
      parseColor_green rgbToHsl_green hsla_of_rgba_def)

section \<open>The end-to-end example\<close>

text \<open>
  C1. \<open>open({originalColor: "#FF0000", currentColor: "#00FF00", onConfirm: cb})\<close> followed
  at once by \<open>confirm()\<close> (the click on the overlay) invokes \<open>cb\<close> exactly once, with
  \<open>{h: 1/3, s: 1, l: 0.5, a: 1}\<close>: whatever the state before, the page's readings and
  the outcome of the call, the run adds one invocation to the record, that of \<open>cb\<close> with
  this colour.
\<close>

theorem open_confirm_green:
  "invocations
     (run [(d1, Open \<lparr>originalColor = JString ''#FF0000'', currentColor = JString ''#00FF00'',
                      onConfirm = Some cb\<rparr>),
           (d2, OverlayClick oc)] st)
   = invocations st @
       [(cb, Some \<lparr>cs_h = Fin (1 / 3), cs_s = Fin 1, cs_l = Fin (1 / 2), cs_a = Fin 1\<rparr>)]"
  by (cases oc)
    (simp_all add: confirm_def close_def open_swatchStateCache open_editMode
      open_onConfirmCallback open_invocations parseColor_green rgbToHsl_green hsla_of_rgba_def)

section \<open>The wheel and lightness\<close>

text \<open>
  C7. When the lightness is exactly 0 or exactly 1 as the wheel handler sets hue and
  saturation, the resulting lightness is 0.5; for every other lightness the handler
  leaves it as it is. (From \<open>l = 1\<close> the result is \<open>l = 0.5\<close>, whichever hue and
  saturation the pointer chooses.)
\<close>

theorem wheel_move_lightness:
  "cs_l (colorState (handleWheelMove d coords st)) =
     (if cs_l (colorState st) = Fin 1 \<or> cs_l (colorState st) = Fin 0 then Fin (1 / 2)
      else cs_l (colorState st))"
  by (simp add: handleWheelMove_def render_def Let_def js_eq_Fin)

section \<open>The session's lifecycle\<close>

text \<open>
  Every event of the page whose callback, if invoked, returns normally leaves the sum
  of the number of invocations and of the stored callback as it is: only \<open>confirm\<close>
  invokes, and it clears the callback that it invokes and that returns.
\<close>

lemma step_budget:
  assumes "\<not> is_Open e" and "callback_returns e"
  shows "length (invocations (step d e st)) + pending (step d e st)
         = length (invocations st) + pending st"
proof (cases "is_OverlayClick e")
  case True
  then obtain oc where e: "e = OverlayClick oc" by (cases e) simp_all
  with assms(2) have "oc = Returns" by (cases oc) simp_all
  with e show ?thesis
    by (simp add: pending_def confirm_def close_def Let_def split: option.split)
next
  case False
  with assms show ?thesis
    by (simp add: pending_def step_invocations step_onConfirmCallback)
qed

lemma run_budget:
  "list_all (\<lambda>de. \<not> is_Open (snd de) \<and> callback_returns (snd de)) es \<Longrightarrow>
   length (invocations (run es st)) + pending (run es st) = length (invocations st) + pending st"
proof (induction es arbitrary: st)
  case Nil
  then show ?case by simp
next
  case (Cons de es)
  obtain d e where de: "de = (d, e)" by (cases de)
  from Cons.prems de have "\<not> is_Open e" and "callback_returns e"
    and "list_all (\<lambda>de. \<not> is_Open (snd de) \<and> callback_returns (snd de)) es"
    by simp_all
  then show ?case
    using Cons.IH [of "step d e st"] step_budget [of e d st] by (simp add: de)
qed

text \<open>
  C2, as amended. Per session, and as long as the callback returns normally when it is
  invoked, the stored callback is invoked at most once. \<open>confirm\<close> with a stored callback
  that returns invokes it exactly once (with \<open>previousColorState\<close> in background mode,
  with \<open>swatchStateCache\<close> otherwise), closes the module and clears the callback;
  \<open>confirm\<close> after \<open>close\<close> invokes nothing, whatever the callback would do; and whatever
  events follow a call of \<open>open\<close>, as long as \<open>open\<close> is not called again and no invocation
  throws, at most one invocation is added to the record.
\<close>

theorem confirm_at_most_once:
  "(onConfirmCallback st = Some cb \<longrightarrow>
      invocations (confirm Returns st) =
        invocations st @
          [(cb, if editMode st = Background then previousColorState st else swatchStateCache st)]
      \<and> \<not> is_open (confirm Returns st) \<and> onConfirmCallback (confirm Returns st) = None)
   \<and> invocations (confirm oc (close st)) = invocations st
   \<and> (list_all (\<lambda>de. \<not> is_Open (snd de) \<and> callback_returns (snd de)) es \<longrightarrow>
        length (invocations (run es (open_picker d cfg st0))) \<le> length (invocations st0) + 1)"
proof (intro conjI impI)
  assume "list_all (\<lambda>de. \<not> is_Open (snd de) \<and> callback_returns (snd de)) es"
  from run_budget [OF this, of "open_picker d cfg st0"]
  have "length (invocations (run es (open_picker d cfg st0)))
        \<le> length (invocations (open_picker d cfg st0)) + pending (open_picker d cfg st0)"
    by simp
  also have "\<dots> \<le> length (invocations st0) + 1"
    by (simp add: open_invocations pending_def split: option.split)
  finally show
    "length (invocations (run es (open_picker d cfg st0))) \<le> length (invocations st0) + 1" .
qed (simp_all add: confirm_def close_def)

text \<open>
  C2 as stated fails on a callback that throws: \<open>confirm\<close> calls it before \<open>close\<close> and
  does not guard the call, so the exception skips \<open>close\<close>. In the session of the
  end-to-end example, after a click whose invocation throws the module is still open
  and the callback still stored, and the next click invokes it a second time.
\<close>

theorem confirm_at_most_once_counterexample:
  "invocations
     (run [(example_dom, OverlayClick Throws), (example_dom, OverlayClick Returns)]
        (open_picker example_dom green_config (initial_picker 300 300)))
     = [(7, Some green), (7, Some green)]
   \<and> is_open (confirm Throws (open_picker example_dom green_config (initial_picker 300 300)))
   \<and> onConfirmCallback
        (confirm Throws (open_picker example_dom green_config (initial_picker 300 300))) = Some 7"
  by (simp add: confirm_def close_def open_green open_editMode open_invocations open_is_open
      initial_picker_def)

text \<open>
  The session of the end-to-end example, confirmed by a callback that returns, then
  switched to background mode and confirmed again: one invocation in all, that of the
  first \<open>confirm\<close>.
\<close>

theorem confirm_at_most_once_witness:
  "length (invocations
     (run [(example_dom, OverlayClick Returns), (example_dom, ChangeBgClick),
           (example_dom, OverlayClick Returns)]
        (open_picker example_dom green_config (initial_picker 300 300)))) \<le> 1
   \<and> invocations (confirm Returns (open_picker example_dom green_config (initial_picker 300 300)))
       = [(7, Some green)]"
  using confirm_at_most_once [where st = "open_picker example_dom green_config (initial_picker 300 300)"
      and cb = 7 and d = example_dom and cfg = green_config and ?st0.0 = "initial_picker 300 300"
      and es = "[(example_dom, OverlayClick Returns), (example_dom, ChangeBgClick),
                 (example_dom, OverlayClick Returns)]"]
  by (simp add: open_green open_editMode open_invocations initial_picker_def)

section \<open>Mode switches\<close>

text \<open>In a session the swatch cache is always a complete colour.\<close>

lemma step_cache_defined:
  "swatchStateCache st \<noteq> None \<Longrightarrow> swatchStateCache (step d e st) \<noteq> None"
  by (cases e)
    (auto simp add: step_defs open_swatchStateCache
      split: key.split option.split prod.split outcome.split)

lemma session_cache_defined:
  "swatchStateCache st \<noteq> None \<Longrightarrow> swatchStateCache (run es st) \<noteq> None"
proof (induction es arbitrary: st)
  case Nil
  then show ?case by simp
next
  case (Cons de es)
  obtain d e where de: "de = (d, e)" by (cases de)
  show ?case
    using Cons.IH [OF step_cache_defined [OF Cons.prems, of d e]] by (simp add: de)
qed

text \<open>
  C5. While the edit mode is \<open>background\<close>, no event of the session (pointer, keyboard,
  alpha, eyedropper, the swatch buttons, resize, confirm, the mode switch) changes the
  value of \<open>swatchStateCache\<close>, and the switch back to swatch mode makes the live colour
  exactly the cached one. The events are those of the running session: a new call of
  \<open>open\<close> starts another session and resets every snapshot. The cache is a complete
  colour throughout a session (\<open>session_cache_defined\<close>).
\<close>

theorem background_mode_isolation:
  assumes "editMode st = Background" and "swatchStateCache st = Some c" and "\<not> is_Open e"
  shows "swatchStateCache (step d e st) = Some c \<and>
         (e = ChangeBgClick \<longrightarrow> editMode (step d e st) = Swatch \<and> colorState (step d e st) = c)"
  using assms
  by (cases e)
    (simp_all add: step_defs split: key.split option.split prod.split outcome.split)

text \<open>
  The session of the end-to-end example in background mode: an alpha input leaves the
  cached green as it is, and the switch back makes it the live colour.
\<close>

theorem background_mode_isolation_witness:
  "editMode (step example_dom ChangeBgClick
       (open_picker example_dom green_config (initial_picker 300 300))) = Background
   \<and> swatchStateCache (step example_dom (AlphaInput (Fin (1 / 4)))
        (step example_dom ChangeBgClick
          (open_picker example_dom green_config (initial_picker 300 300)))) = Some green
   \<and> colorState (step example_dom ChangeBgClick
        (step example_dom ChangeBgClick
          (open_picker example_dom green_config (initial_picker 300 300)))) = green"
proof -
  let ?st = "step example_dom ChangeBgClick
       (open_picker example_dom green_config (initial_picker 300 300))"
  have m: "editMode ?st = Background"
    by (simp add: setEditMode_def render_def open_editMode)
  have c: "swatchStateCache ?st = Some green"
    by (simp add: setEditMode_def render_def open_editMode open_green)
  show ?thesis
    using background_mode_isolation [OF m c, of "AlphaInput (Fin (1 / 4))" example_dom]
      background_mode_isolation [OF m c, of ChangeBgClick example_dom] m
    by simp
qed

section \<open>Parsing\<close>

text \<open>
  C10. \<open>parseColor\<close> is total and never fails. On every string that is not an
  \<open>rgb\<close>-prefixed string with at least three numeric substrings and not a well-formed
  hexadecimal colour it returns opaque black \<open>[0, 0, 0, 1]\<close>; the theorem asks of the
  hexadecimal form only that it fails where \<open>parseColor\<close> uses it, on strings that start
  with \<open>#\<close>, which covers every string that is not six or eight hexadecimal digits after
  an optional \<open>#\<close>. A value that is not a string gives black too, and \<open>hexToRgb\<close> gives
  \<open>{r: 0, g: 0, b: 0, a: 1}\<close> on every malformed input.
\<close>

theorem parseColor_fallback:
  "(\<not> rgb_with_three_numbers str \<and> \<not> (take 1 str = ''#'' \<and> wellformed_hex str) \<longrightarrow>
      parseColor (JString str) = black)
   \<and> parseColor JNotString = black
   \<and> (\<not> wellformed_hex hex \<longrightarrow> hexToRgb hex = black)"
  by (auto simp add: parseColor_def hexToRgb_def rgb_with_three_numbers_def wellformed_hex_def
      black_def Let_def split: option.split)

text \<open>
  \<open>parseColor("not-a-color")\<close>, an \<open>rgb\<close> string with two numbers and a \<open>#\<close> string of
  five digits are black, and so is \<open>hexToRgb\<close> of a \<open>#\<close> string with a letter that is no
  digit.
\<close>

theorem parseColor_fallback_witness:
  "parseColor (JString ''not-a-color'') = (Fin 0, Fin 0, Fin 0, Fin 1)
   \<and> parseColor (JString ''rgb(12, 34)'') = (Fin 0, Fin 0, Fin 0, Fin 1)
   \<and> parseColor (JString ''#12345'') = (Fin 0, Fin 0, Fin 0, Fin 1)
   \<and> hexToRgb ''#GG0000'' = (Fin 0, Fin 0, Fin 0, Fin 1)"
  using parseColor_fallback [of "''not-a-color''" "''#GG0000''"]
    parseColor_fallback [of "''rgb(12, 34)''" "''#GG0000''"]
    parseColor_fallback [of "''#12345''" "''#GG0000''"]
  by (simp add: rgb_with_three_numbers_def wellformed_hex_def hex_groups_def black_def
      is_num_char_def is_digit_def is_hex_def hexDigitValue_def)

section \<open>Hexadecimal output\<close>

lemma hex_of_nat_small: "n < 16 \<Longrightarrow> hex_of_nat n = [''0123456789abcdef'' ! n]"
  by (subst hex_of_nat.simps) simp

lemma hex_of_nat_byte:
  "16 \<le> n \<Longrightarrow> n < 256 \<Longrightarrow>
   hex_of_nat n = [''0123456789abcdef'' ! (n div 16), ''0123456789abcdef'' ! (n mod 16)]"
  by (subst hex_of_nat.simps) (simp add: hex_of_nat_small)

lemma hex_of_nat_nonempty: "hex_of_nat n \<noteq> []"
  by (subst hex_of_nat.simps) simp

lemma toHex_byte:
  assumes "0 \<le> c" and "c \<le> 255"
  shows "toUpperCase (toHex (Fin c)) = hex_byte (round_half_up c)"
proof -
  define L where "L = ''0123456789abcdef''"
  define U where "U = ''0123456789ABCDEF''"
  have LU: "map toUpperCase_char L = U"
    by (simp add: L_def U_def toUpperCase_char_def)
  have lenL: "length L = 16"
    by (simp add: L_def)
  have dig: "toUpperCase_char (L ! i) = U ! i" if "i < 16" for i
    using nth_map [of i L toUpperCase_char] that by (simp add: LU lenL)
  have zero: "toUpperCase_char CHR ''0'' = CHR ''0''" and U0: "U ! 0 = CHR ''0''"
    by (simp_all add: toUpperCase_char_def U_def)
  define k where "k = \<lfloor>c + 1 / 2\<rfloor>"
  have k0: "0 \<le> k" and k255: "k \<le> 255"
    using assms unfolding k_def by linarith+
  define n where "n = nat k"
  have n: "n < 256" using k0 k255 by (simp add: n_def)
  have str: "toString16 (Math_round (Fin c)) = hex_of_nat n"
    using k0 by (simp add: toString16_def k_def [symmetric] n_def)
  have rn: "round_half_up c = n"
    by (simp add: round_half_up_def n_def k_def)
  have hex: "toHex (Fin c) = slice_last2 (CHR ''0'' # hex_of_nat n)"
    by (simp only: toHex_def str)
  have byte: "hex_byte n = [U ! (n div 16), U ! (n mod 16)]"
    by (simp only: hex_byte_def U_def)
  show ?thesis
  proof (cases "n < 16")
    case True
    then have "hex_of_nat n = [L ! n]"
      unfolding L_def by (rule hex_of_nat_small)
    with True show ?thesis
      by (simp add: hex slice_last2_def toUpperCase_def rn byte dig zero U0)
  next
    case False
    with n have *: "n div 16 < 16" "n mod 16 < 16" "16 \<le> n" by simp_all
    have "hex_of_nat n = [L ! (n div 16), L ! (n mod 16)]"
      unfolding L_def using *(3) n by (rule hex_of_nat_byte)
    with * show ?thesis
      by (simp add: hex slice_last2_def toUpperCase_def rn byte dig)
  qed
qed

lemma length_toHex: "length (toHex x) = 2"
proof -
  have "toString16 y \<noteq> []" for y
    by (cases y) (simp_all add: toString16_def hex_of_nat_nonempty)
  then have "length (toString16 (Math_round x)) \<ge> 1"
    by (simp add: Suc_le_eq)
  then show ?thesis
    by (simp add: toHex_def slice_last2_def)
qed

text \<open>
  C9. For \<open>r\<close>, \<open>g\<close>, \<open>b\<close> in \<open>[0, 255]\<close>, \<open>rgbToHex\<close> gives the upper-case \<open>#RRGGBB\<close> of
  the rounded channels when the alpha is undefined or equal to 1, and appends the two
  digits of \<open>round(a * 255)\<close> when the alpha \<open>a\<close> (a number of \<open>[0, 1]\<close>) is defined and is
  not 1. The result has 7 characters in the first case and 9 in every other, whatever
  number the alpha is.
\<close>

theorem rgbToHex_format:
  assumes "0 \<le> r" "r \<le> 255" "0 \<le> g" "g \<le> 255" "0 \<le> b" "b \<le> 255"
  shows "rgbToHex (Fin r) (Fin g) (Fin b) None =
           CHR ''#'' # hex_byte (round_half_up r) @ hex_byte (round_half_up g)
             @ hex_byte (round_half_up b)
         \<and> rgbToHex (Fin r) (Fin g) (Fin b) (Some (Fin 1)) =
           CHR ''#'' # hex_byte (round_half_up r) @ hex_byte (round_half_up g)
             @ hex_byte (round_half_up b)
         \<and> (0 \<le> v \<and> v \<le> 1 \<and> v \<noteq> 1 \<longrightarrow>
            rgbToHex (Fin r) (Fin g) (Fin b) (Some (Fin v)) =
              CHR ''#'' # hex_byte (round_half_up r) @ hex_byte (round_half_up g)
                @ hex_byte (round_half_up b) @ hex_byte (round_half_up (v * 255)))
         \<and> length (rgbToHex (Fin r) (Fin g) (Fin b) a) =
             (if a = None \<or> a = Some (Fin 1) then 7 else 9)"
proof -
  have up: "toUpperCase (xs @ ys) = toUpperCase xs @ toUpperCase ys" for xs ys
    by (simp add: toUpperCase_def)
  have hash: "toUpperCase_char CHR ''#'' = CHR ''#''"
    by (simp add: toUpperCase_char_def)
  have rgb: "toUpperCase (CHR ''#'' # toHex (Fin r) @ toHex (Fin g) @ toHex (Fin b)) =
      CHR ''#'' # hex_byte (round_half_up r) @ hex_byte (round_half_up g)
                @ hex_byte (round_half_up b)"
    using toHex_byte [OF assms(1,2)] toHex_byte [OF assms(3,4)] toHex_byte [OF assms(5,6)]
    by (simp add: toUpperCase_def hash)
  have alpha: "toUpperCase (toHex (Fin (v * 255))) = hex_byte (round_half_up (v * 255))"
    if "0 \<le> v" "v \<le> 1"
    using that by (intro toHex_byte) simp_all
  have len: "length (toUpperCase xs) = length xs" for xs
    by (simp add: toUpperCase_def)
  have undef: "rgbToHex (Fin r) (Fin g) (Fin b) None =
           CHR ''#'' # hex_byte (round_half_up r) @ hex_byte (round_half_up g)
             @ hex_byte (round_half_up b)"
    using rgb by (simp add: rgbToHex_def)
  have opaque: "rgbToHex (Fin r) (Fin g) (Fin b) (Some (Fin 1)) =
           CHR ''#'' # hex_byte (round_half_up r) @ hex_byte (round_half_up g)
             @ hex_byte (round_half_up b)"
    using rgb by (simp add: rgbToHex_def)
  have translucent: "rgbToHex (Fin r) (Fin g) (Fin b) (Some (Fin v)) =
              CHR ''#'' # hex_byte (round_half_up r) @ hex_byte (round_half_up g)
                @ hex_byte (round_half_up b) @ hex_byte (round_half_up (v * 255))"
    if "0 \<le> v" "v \<le> 1" "v \<noteq> 1"
    using rgb alpha that
      up [of "CHR ''#'' # toHex (Fin r) @ toHex (Fin g) @ toHex (Fin b)" "toHex (Fin (v * 255))"]
    by (simp add: rgbToHex_def)
  have length: "length (rgbToHex (Fin r) (Fin g) (Fin b) a) =
             (if a = None \<or> a = Some (Fin 1) then 7 else 9)"
    by (cases a) (auto simp add: rgbToHex_def len length_toHex js_eq_Fin Let_def)
  from undef opaque translucent length show ?thesis by blast
qed

text \<open>
  \<open>rgbToHex(255, 0, 0, 1)\<close> and \<open>rgbToHex(255, 0, 0)\<close> are \<open>#FF0000\<close>;
  \<open>rgbToHex(255, 0, 0, 0.5)\<close> is \<open>#FF000080\<close>, as \<open>0.5 * 255 = 127.5\<close> rounds up to 128.
\<close>

theorem rgbToHex_format_witness:
  "rgbToHex (Fin 255) (Fin 0) (Fin 0) (Some (Fin 1)) = ''#FF0000''
   \<and> rgbToHex (Fin 255) (Fin 0) (Fin 0) None = ''#FF0000''
   \<and> rgbToHex (Fin 255) (Fin 0) (Fin 0) (Some (Fin (1 / 2))) = ''#FF000080''"
  using rgbToHex_format [of 255 0 0 "1 / 2"]
  by (simp add: hex_byte_def round_half_up_def)

section \<open>Hue, saturation and lightness from the pointer and the keyboard\<close>

lemma js_rem_one: "0 \<le> x \<Longrightarrow> js_rem (Fin x) (Fin 1) = Fin (frac x)"
  by (simp add: trunc_def frac_def)

lemma atan2_bounds: "- pi < atan2 y x \<and> atan2 y x \<le> pi"
proof -
  have lb: "- (pi / 2) < arctan (y / x)" and ub: "arctan (y / x) < pi / 2"
    by (rule arctan_lbound, rule arctan_ubound)
  have neg: "arctan (y / x) \<le> 0" if "x < 0" "0 \<le> y"
    using that by (simp add: arctan_le_zero_iff divide_nonneg_neg)
  have pos: "0 < arctan (y / x)" if "x < 0" "y < 0"
    using that by (simp add: zero_less_arctan_iff divide_neg_neg)
  show ?thesis
    using lb ub neg pos pi_gt_zero by (auto simp add: atan2_def)
qed

text \<open>
  C6. For a wheel of radius \<open>R > 0\<close> and every pointer position, the wheel handler sets
  the hue to \<open>(atan2(dy, dx) / (2\<pi>) + 1) % 1\<close>, which is the fractional part of
  \<open>atan2(dy, dx) / (2\<pi>) + 1\<close> and lies in \<open>[0, 1)\<close>, and the saturation to
  \<open>min(distance, R) / R\<close>, a number of \<open>[0, 1]\<close>: a pointer farther than \<open>R\<close> from the
  centre gives saturation exactly 1.
\<close>

theorem wheel_move_hue_saturation:
  assumes "0 < wheel_width st"
    and "R = real (wheel_width st) / 2"
    and "dx = x - wheel_left d - R" and "dy = y - wheel_top d - R"
    and "dst = sqrt (dx * dx + dy * dy)"
  shows "cs_h (colorState (handleWheelMove d (x, y) st)) = js_rem (Fin (atan2 dy dx / (2 * pi) + 1)) (Fin 1)
    \<and> cs_h (colorState (handleWheelMove d (x, y) st)) = Fin (frac (atan2 dy dx / (2 * pi) + 1))
    \<and> 0 \<le> frac (atan2 dy dx / (2 * pi) + 1) \<and> frac (atan2 dy dx / (2 * pi) + 1) < 1
    \<and> cs_s (colorState (handleWheelMove d (x, y) st)) = Fin (min dst R / R)
    \<and> 0 \<le> min dst R / R \<and> min dst R / R \<le> 1
    \<and> (R < dst \<longrightarrow> cs_s (colorState (handleWheelMove d (x, y) st)) = Fin 1)"
proof -
  have R: "0 < R" using assms(1,2) by simp
  have "- pi < atan2 dy dx" using atan2_bounds by blast
  then have "- 1 < atan2 dy dx / pi"
    using pi_gt_zero by (simp add: pos_less_divide_eq)
  then have nonneg: "0 \<le> atan2 dy dx / (2 * pi) + 1"
    by simp
  have h: "cs_h (colorState (handleWheelMove d (x, y) st)) =
      js_rem (Fin (atan2 dy dx / (2 * pi) + 1)) (Fin 1)"
    by (simp add: handleWheelMove_def render_def Let_def assms(2-4))
  have dist0: "0 \<le> dst" using assms(5) by simp
  have s: "cs_s (colorState (handleWheelMove d (x, y) st)) = Fin (min dst R / R)"
    using R by (simp add: handleWheelMove_def render_def Let_def min_def assms(2-5))
  have range: "0 \<le> min dst R / R" "min dst R / R \<le> 1"
    using R dist0 by simp_all
  have out: "cs_s (colorState (handleWheelMove d (x, y) st)) = Fin 1" if "R < dst"
    using that R s by (simp add: min_def)
  show ?thesis
    using h js_rem_one [OF nonneg] frac_ge_0 [of "atan2 dy dx / (2 * pi) + 1"]
      frac_lt_1 [of "atan2 dy dx / (2 * pi) + 1"] s range out
    by simp
qed

text \<open>
  On a wheel of width 300 at \<open>(10, 20)\<close>, the pointer at \<open>(1000, 170)\<close> is 840 to the right
  of the centre: saturation 1, hue 0.
\<close>

theorem wheel_move_hue_saturation_witness:
  "0 < wheel_width (initial_picker 300 300)
   \<and> cs_s (colorState (handleWheelMove example_dom (1000, 170) (initial_picker 300 300))) = Fin 1
   \<and> cs_h (colorState (handleWheelMove example_dom (1000, 170) (initial_picker 300 300))) = Fin 0"
proof -
  have w: "0 < wheel_width (initial_picker 300 300)"
    by (simp add: initial_picker_def)
  have far: "(150::real) < sqrt (840 * 840 + 0 * 0)"
    by (rule real_less_rsqrt) simp
  have a: "atan2 0 840 = 0"
    by (simp add: atan2_def)
  show ?thesis
    using wheel_move_hue_saturation [OF w, of 150 840 1000 example_dom 0 170
        "sqrt (840 * 840 + 0 * 0)"] far a w
    by (simp add: initial_picker_def example_dom_def trunc_def)
qed


text \<open>
  C8. From a colour with hue, saturation and lightness in \<open>[0, 1]\<close>, an arrow key steps
  by \<open>k = 0.01\<close>, or \<open>k = 0.05\<close> with the shift key. On the wheel, left and right move the
  hue to the fractional part of \<open>h - k\<close> and of \<open>h + k\<close>, in \<open>[0, 1)\<close> (it wraps both
  ways), up and down move the saturation to \<open>min(1, s + k)\<close> and \<open>max(0, s - k)\<close>; on the
  slider, right and left move the lightness to \<open>min(1, l + k)\<close> and \<open>max(0, l - k)\<close>.
  Saturation and lightness stay in \<open>[0, 1]\<close> and do not wrap; the other fields are
  unchanged.
\<close>

theorem keyboard_step:
  assumes "colorState st = \<lparr>cs_h = Fin h, cs_s = Fin s, cs_l = Fin l, cs_a = a\<rparr>"
    and "0 \<le> h" "h \<le> 1" "0 \<le> s" "s \<le> 1" "0 \<le> l" "l \<le> 1"
    and "k = (if shiftKey then 5 / 100 else 1 / 100)"
  shows "colorState (wheel_keydown shiftKey ArrowLeft st) = (colorState st)\<lparr>cs_h := Fin (frac (h - k))\<rparr>
    \<and> colorState (wheel_keydown shiftKey ArrowRight st) = (colorState st)\<lparr>cs_h := Fin (frac (h + k))\<rparr>
    \<and> 0 \<le> frac (h - k) \<and> frac (h - k) < 1 \<and> 0 \<le> frac (h + k) \<and> frac (h + k) < 1
    \<and> colorState (wheel_keydown shiftKey ArrowUp st) = (colorState st)\<lparr>cs_s := Fin (min 1 (s + k))\<rparr>
    \<and> colorState (wheel_keydown shiftKey ArrowDown st) = (colorState st)\<lparr>cs_s := Fin (max 0 (s - k))\<rparr>
    \<and> colorState (lightness_keydown shiftKey ArrowRight st) = (colorState st)\<lparr>cs_l := Fin (min 1 (l + k))\<rparr>
    \<and> colorState (lightness_keydown shiftKey ArrowLeft st) = (colorState st)\<lparr>cs_l := Fin (max 0 (l - k))\<rparr>
    \<and> 0 \<le> min 1 (s + k) \<and> 0 \<le> max 0 (s - k) \<and> max 0 (s - k) \<le> 1
    \<and> 0 \<le> min 1 (l + k) \<and> 0 \<le> max 0 (l - k) \<and> max 0 (l - k) \<le> 1"
proof -
  have k: "0 < k" "k \<le> 1" "key_step shiftKey = Fin k"
    using assms(8) by (simp_all add: key_step_def)
  have left: "js_rem (Fin (h - k + 1)) (Fin 1) = Fin (frac (h - k))"
    using js_rem_one [of "h - k + 1"] k assms(2) by (simp add: frac_1_eq)
  have right: "js_rem (Fin (h + k)) (Fin 1) = Fin (frac (h + k))"
    using js_rem_one [of "h + k"] k assms(2) by simp
  show ?thesis
    using k assms(1-7) left right frac_ge_0 [of "h - k"] frac_lt_1 [of "h - k"]
      frac_ge_0 [of "h + k"] frac_lt_1 [of "h + k"]
    by (simp add: wheel_keydown_def lightness_keydown_def render_def Let_def min_def max_def)
qed

text \<open>
  From \<open>h = 0\<close> one step left gives \<open>h = 0.99\<close>; from \<open>s = 1\<close> a shifted step up gives
  \<open>s = 1\<close>.
\<close>

theorem keyboard_step_witness:
  "cs_h (colorState (wheel_keydown False ArrowLeft
      ((initial_picker 300 300)\<lparr>colorState := \<lparr>cs_h = Fin 0, cs_s = Fin 1, cs_l = Fin (1 / 2), cs_a = Fin 1\<rparr>\<rparr>)))
    = Fin (99 / 100)
   \<and> cs_s (colorState (wheel_keydown True ArrowUp
      ((initial_picker 300 300)\<lparr>colorState := \<lparr>cs_h = Fin 0, cs_s = Fin 1, cs_l = Fin (1 / 2), cs_a = Fin 1\<rparr>\<rparr>)))
    = Fin 1"
proof -
  have f: "frac (- (1 / 100) :: real) = 99 / 100"
    by (simp add: frac_def)
  show ?thesis
    using keyboard_step [of "(initial_picker 300 300)\<lparr>colorState := \<lparr>cs_h = Fin 0, cs_s = Fin 1, cs_l = Fin (1 / 2), cs_a = Fin 1\<rparr>\<rparr>"
        0 1 "1 / 2" "Fin 1" "1 / 100" False]
      keyboard_step [of "(initial_picker 300 300)\<lparr>colorState := \<lparr>cs_h = Fin 0, cs_s = Fin 1, cs_l = Fin (1 / 2), cs_a = Fin 1\<rparr>\<rparr>"
        0 1 "1 / 2" "Fin 1" "5 / 100" True] f
    by simp
qed

section \<open>The conversions on the gamut\<close>

text \<open>
  On channels of \<open>[0, 255]\<close> every number of \<open>rgbToHsl\<close> is finite. With \<open>R\<close>, \<open>G\<close>, \<open>B\<close>
  the channels divided by 255, \<open>M\<close> their maximum and \<open>m\<close> their minimum, the lemmas
  below give the result of \<open>rgbToHsl\<close> in real arithmetic, the values of \<open>hue2rgb\<close> on
  each sixth of the hue circle, and from these the channels that \<open>hslToRgb\<close> computes
  from the hue, according to which channel is the maximum.
\<close>

lemma js_gt_Fin [simp]: "js_gt (Fin x) (Fin y) = (y < x)"
  by (simp add: js_gt_def)

lemma Math_max_Fin [simp]: "Math_max (Fin x) (Fin y) = Fin (max x y)"
  by (simp add: max_def)

lemma Math_min_Fin [simp]: "Math_min (Fin x) (Fin y) = Fin (min x y)"
  by (simp add: min_def)

lemma rgbToHsl_achromatic:
  "rgbToHsl (Fin (255 * R)) (Fin (255 * R)) (Fin (255 * R)) = (Fin 0, Fin 0, Fin R)"
  by (simp add: rgbToHsl_def)

lemma rgbToHsl_chromatic:
  assumes "0 \<le> R" "R \<le> 1" "0 \<le> G" "G \<le> 1" "0 \<le> B" "B \<le> 1"
    and M: "M = max (max R G) B" and m: "m = min (min R G) B" and "m < M"
  shows "rgbToHsl (Fin (255 * R)) (Fin (255 * G)) (Fin (255 * B)) =
    (Fin ((if M = R then (G - B) / (M - m) + (if G < B then 6 else 0)
           else if M = G then (B - R) / (M - m) + 2
           else (R - G) / (M - m) + 4) / 6),
     Fin (if 1 / 2 < (M + m) / 2 then (M - m) / (2 - M - m) else (M - m) / (M + m)),
     Fin ((M + m) / 2))"
proof -
  have m0: "0 \<le> m" and M1: "M \<le> 1"
    using assms(1-6) unfolding M m by auto
  have d: "M - m \<noteq> 0" "M + m \<noteq> 0" "2 - M - m \<noteq> 0" "M \<noteq> m"
    using m0 M1 \<open>m < M\<close> by auto
  have B: "M = B" if "M \<noteq> R" "M \<noteq> G"
    using that unfolding M by (auto simp add: max_def split: if_splits)
  have mx: "Math_max (Math_max (Fin R) (Fin G)) (Fin B) = Fin M"
    by (simp add: M)
  have mn: "Math_min (Math_min (Fin R) (Fin G)) (Fin B) = Fin m"
    by (simp add: m)
  have q: "js_div (Fin (255 * x)) (Fin 255) = Fin x" for x
    by simp
  have l: "js_div (js_add (Fin M) (Fin m)) (Fin 2) = Fin ((M + m) / 2)"
    by simp
  have s: "(if js_gt (Fin ((M + m) / 2)) (Fin (1 / 2))
       then js_div (js_sub (Fin M) (Fin m)) (js_sub (js_sub (Fin 2) (Fin M)) (Fin m))
       else js_div (js_sub (Fin M) (Fin m)) (js_add (Fin M) (Fin m))) =
     Fin (if 1 / 2 < (M + m) / 2 then (M - m) / (2 - M - m) else (M - m) / (M + m))"
    using d(2,3) by simp
  have hr: "js_add (js_div (js_sub (Fin G) (Fin B)) (js_sub (Fin M) (Fin m))) (if js_lt (Fin G) (Fin B) then Fin 6 else Fin 0)
     = Fin ((G - B) / (M - m) + (if G < B then 6 else 0))"
    using d(1) by simp
  have hg: "js_add (js_div (js_sub (Fin B) (Fin R)) (js_sub (Fin M) (Fin m))) (Fin 2)
     = Fin ((B - R) / (M - m) + 2)"
    using d(1) by simp
  have hb: "js_add (js_div (js_sub (Fin R) (Fin G)) (js_sub (Fin M) (Fin m))) (Fin 4)
     = Fin ((R - G) / (M - m) + 4)"
    using d(1) by simp
  have e: "(M = m) = False" "js_eq (Fin M) (Fin x) = (M = x)" for x
    using d(4) by simp_all
  have six: "js_div (Fin x) (Fin 6) = Fin (x / 6)" for x
    by simp
  consider "M = R" | "M \<noteq> R" "M = G" | "M \<noteq> R" "M \<noteq> G" "M = B"
    using B by blast
  then show ?thesis
  proof cases
    case 1
    then have c: "(M = R) = True" by simp
    show ?thesis
      by (simp only: rgbToHsl_def Let_def q mx mn l s hr hg hb e c if_True if_False six)
  next
    case 2
    then have c: "(M = R) = False" "(M = G) = True" by simp_all
    show ?thesis
      by (simp only: rgbToHsl_def Let_def q mx mn l s hr hg hb e c if_True if_False six)
  next
    case 3
    then have c: "(M = R) = False" "(M = G) = False" "(M = B) = True" by simp_all
    show ?thesis
      by (simp only: rgbToHsl_def Let_def q mx mn l s hr hg hb e c if_True if_False six)
  qed
qed


lemma hue2rgb_up: "0 \<le> t \<Longrightarrow> t \<le> 1 / 6 \<Longrightarrow> hue2rgb (Fin p) (Fin q) (Fin t) = Fin (p + (q - p) * 6 * t)"
proof (cases "t = 1 / 6")
  case True
  show "0 \<le> t \<Longrightarrow> t \<le> 1 / 6 \<Longrightarrow> ?thesis"
    unfolding True by (simp add: hue2rgb_def Let_def diff_divide_distrib)
next
  case False
  then show "0 \<le> t \<Longrightarrow> t \<le> 1 / 6 \<Longrightarrow> ?thesis"
    by (simp add: hue2rgb_def Let_def)
qed

lemma hue2rgb_top: "1 / 6 \<le> t \<Longrightarrow> t \<le> 1 / 2 \<Longrightarrow> hue2rgb (Fin p) (Fin q) (Fin t) = Fin q"
proof (cases "t = 1 / 2")
  case True
  show "1 / 6 \<le> t \<Longrightarrow> t \<le> 1 / 2 \<Longrightarrow> ?thesis"
    unfolding True by (simp add: hue2rgb_def Let_def diff_divide_distrib)
next
  case False
  then show "1 / 6 \<le> t \<Longrightarrow> t \<le> 1 / 2 \<Longrightarrow> ?thesis"
    by (simp add: hue2rgb_def Let_def)
qed

lemma hue2rgb_down:
  "1 / 2 \<le> t \<Longrightarrow> t \<le> 2 / 3 \<Longrightarrow>
   hue2rgb (Fin p) (Fin q) (Fin t) = Fin (p + (q - p) * (2 / 3 - t) * 6)"
proof (cases "t = 2 / 3")
  case True
  show "1 / 2 \<le> t \<Longrightarrow> t \<le> 2 / 3 \<Longrightarrow> ?thesis"
    unfolding True by (simp add: hue2rgb_def Let_def diff_divide_distrib)
next
  case False
  then show "1 / 2 \<le> t \<Longrightarrow> t \<le> 2 / 3 \<Longrightarrow> ?thesis"
    by (simp add: hue2rgb_def Let_def)
qed

lemma hue2rgb_bottom: "2 / 3 \<le> t \<Longrightarrow> t \<le> 1 \<Longrightarrow> hue2rgb (Fin p) (Fin q) (Fin t) = Fin p"
  by (simp add: hue2rgb_def Let_def)

lemma hue2rgb_wrap_neg:
  "- 1 \<le> t \<Longrightarrow> t < 0 \<Longrightarrow> hue2rgb P Q (Fin t) = hue2rgb P Q (Fin (t + 1))"
  by (simp add: hue2rgb_def Let_def)

lemma hue2rgb_wrap_pos:
  "1 < t \<Longrightarrow> t \<le> 2 \<Longrightarrow> hue2rgb P Q (Fin t) = hue2rgb P Q (Fin (t - 1))"
  by (simp add: hue2rgb_def Let_def)


lemma channels_max_R:
  assumes "m < M" and "M = R" and "G \<le> M" and "B \<le> M" and "m = min G B"
    and h: "h = ((G - B) / (M - m) + (if G < B then 6 else 0)) / 6"
  shows "hue2rgb (Fin m) (Fin M) (Fin (h + 1 / 3)) = Fin R
    \<and> hue2rgb (Fin m) (Fin M) (Fin h) = Fin G
    \<and> hue2rgb (Fin m) (Fin M) (Fin (h - 1 / 3)) = Fin B"
proof -
  define u where "u = (G - B) / (M - m)"
  have d: "0 < M - m" using assms(1) by simp
  have ud: "(M - m) * u = G - B"
    using d by (simp add: u_def)
  show ?thesis
  proof (cases "G < B")
    case False
    then have mB: "m = B" using assms(5) by simp
    have u0: "0 \<le> u" using False d by (simp add: u_def)
    have u1: "u \<le> 1" using d assms(3) mB by (simp add: u_def)
    have hu: "h = u / 6" using False by (simp add: h u_def)
    have red: "hue2rgb (Fin m) (Fin M) (Fin (h + 1 / 3)) = Fin M"
      using u0 u1 by (intro hue2rgb_top) (simp_all add: hu)
    have "hue2rgb (Fin m) (Fin M) (Fin h) = Fin (m + (M - m) * 6 * h)"
      using u0 u1 by (intro hue2rgb_up) (simp_all add: hu)
    also have "m + (M - m) * 6 * h = m + (M - m) * u"
      by (simp add: hu)
    also have "\<dots> = m + (G - B)"
      by (simp only: ud)
    finally have green: "hue2rgb (Fin m) (Fin M) (Fin h) = Fin G"
      by (simp add: mB)
    have "hue2rgb (Fin m) (Fin M) (Fin (h - 1 / 3)) = hue2rgb (Fin m) (Fin M) (Fin (h - 1 / 3 + 1))"
      using u0 u1 by (intro hue2rgb_wrap_neg) (simp_all add: hu)
    also have "\<dots> = Fin m"
      using u0 u1 by (intro hue2rgb_bottom) (simp_all add: hu)
    finally have blue: "hue2rgb (Fin m) (Fin M) (Fin (h - 1 / 3)) = Fin B"
      by (simp add: mB)
    from red green blue show ?thesis by (simp add: assms(2))
  next
    case True
    then have mG: "m = G" using assms(5) by simp
    have u0: "u < 0" using True d by (simp add: u_def divide_neg_pos)
    have u1: "- 1 \<le> u" using d assms(4) mG by (simp add: u_def pos_le_divide_eq)
    have hu: "h = u / 6 + 1" using True by (simp add: h u_def add_divide_distrib)
    have "hue2rgb (Fin m) (Fin M) (Fin (h + 1 / 3)) = hue2rgb (Fin m) (Fin M) (Fin (h + 1 / 3 - 1))"
      using u0 u1 by (intro hue2rgb_wrap_pos) (simp_all add: hu)
    also have "\<dots> = Fin M"
      using u0 u1 by (intro hue2rgb_top) (simp_all add: hu)
    finally have red: "hue2rgb (Fin m) (Fin M) (Fin (h + 1 / 3)) = Fin M" .
    have green: "hue2rgb (Fin m) (Fin M) (Fin h) = Fin G"
      unfolding mG [symmetric] using u0 u1 by (intro hue2rgb_bottom) (simp_all add: hu)
    have "hue2rgb (Fin m) (Fin M) (Fin (h - 1 / 3)) = Fin (m + (M - m) * (2 / 3 - (h - 1 / 3)) * 6)"
      using u0 u1 by (intro hue2rgb_down) (simp_all add: hu)
    also have "m + (M - m) * (2 / 3 - (h - 1 / 3)) * 6 = m - (M - m) * u"
      by (simp add: hu field_simps)
    also have "\<dots> = m - (G - B)"
      by (simp only: ud)
    finally have blue: "hue2rgb (Fin m) (Fin M) (Fin (h - 1 / 3)) = Fin B"
      by (simp add: mG)
    from red green blue show ?thesis by (simp add: assms(2))
  qed
qed


lemma channels_max_G:
  assumes "m < M" and "M = G" and "R \<le> M" and "B \<le> M" and "m = min R B"
    and h: "h = ((B - R) / (M - m) + 2) / 6"
  shows "hue2rgb (Fin m) (Fin M) (Fin (h + 1 / 3)) = Fin R
    \<and> hue2rgb (Fin m) (Fin M) (Fin h) = Fin G
    \<and> hue2rgb (Fin m) (Fin M) (Fin (h - 1 / 3)) = Fin B"
proof -
  define u where "u = (B - R) / (M - m)"
  have d: "0 < M - m" using assms(1) by simp
  have ud: "(M - m) * u = B - R"
    using d by (simp add: u_def)
  have hu: "h = u / 6 + 1 / 3"
    by (simp add: h u_def add_divide_distrib)
  have lo: "- 1 \<le> u" and hi: "u \<le> 1"
    using d assms(3,4,5) by (simp_all add: u_def pos_le_divide_eq min_def split: if_splits)
  have green: "hue2rgb (Fin m) (Fin M) (Fin h) = Fin M"
    using lo hi by (intro hue2rgb_top) (simp_all add: hu)
  show ?thesis
  proof (cases "B < R")
    case True
    then have mB: "m = B" using assms(5) by simp
    have u0: "u < 0" using True d by (simp add: u_def divide_neg_pos)
    have "hue2rgb (Fin m) (Fin M) (Fin (h + 1 / 3)) = Fin (m + (M - m) * (2 / 3 - (h + 1 / 3)) * 6)"
      using u0 lo by (intro hue2rgb_down) (simp_all add: hu)
    also have "m + (M - m) * (2 / 3 - (h + 1 / 3)) * 6 = m - (M - m) * u"
      by (simp add: hu field_simps)
    also have "\<dots> = m - (B - R)"
      by (simp only: ud)
    finally have red: "hue2rgb (Fin m) (Fin M) (Fin (h + 1 / 3)) = Fin R"
      by (simp add: mB)
    have "hue2rgb (Fin m) (Fin M) (Fin (h - 1 / 3)) = hue2rgb (Fin m) (Fin M) (Fin (h - 1 / 3 + 1))"
      using u0 lo by (intro hue2rgb_wrap_neg) (simp_all add: hu)
    also have "\<dots> = Fin m"
      using u0 lo by (intro hue2rgb_bottom) (simp_all add: hu)
    finally have blue: "hue2rgb (Fin m) (Fin M) (Fin (h - 1 / 3)) = Fin B"
      by (simp add: mB)
    from red green blue show ?thesis by (simp add: assms(2))
  next
    case False
    then have mR: "m = R" using assms(5) by simp
    have u0: "0 \<le> u" using False d by (simp add: u_def)
    have red: "hue2rgb (Fin m) (Fin M) (Fin (h + 1 / 3)) = Fin R"
      unfolding mR [symmetric] using u0 hi by (intro hue2rgb_bottom) (simp_all add: hu)
    have "hue2rgb (Fin m) (Fin M) (Fin (h - 1 / 3)) = Fin (m + (M - m) * 6 * (h - 1 / 3))"
      using u0 hi by (intro hue2rgb_up) (simp_all add: hu)
    also have "m + (M - m) * 6 * (h - 1 / 3) = m + (M - m) * u"
      by (simp add: hu)
    also have "\<dots> = m + (B - R)"
      by (simp only: ud)
    finally have blue: "hue2rgb (Fin m) (Fin M) (Fin (h - 1 / 3)) = Fin B"
      by (simp add: mR)
    from red green blue show ?thesis by (simp add: assms(2))
  qed
qed

lemma channels_max_B:
  assumes "m < M" and "M = B" and "R \<le> M" and "G \<le> M" and "m = min R G"
    and h: "h = ((R - G) / (M - m) + 4) / 6"
  shows "hue2rgb (Fin m) (Fin M) (Fin (h + 1 / 3)) = Fin R
    \<and> hue2rgb (Fin m) (Fin M) (Fin h) = Fin G
    \<and> hue2rgb (Fin m) (Fin M) (Fin (h - 1 / 3)) = Fin B"
proof -
  define u where "u = (R - G) / (M - m)"
  have d: "0 < M - m" using assms(1) by simp
  have ud: "(M - m) * u = R - G"
    using d by (simp add: u_def)
  have hu: "h = u / 6 + 2 / 3"
    by (simp add: h u_def add_divide_distrib)
  have lo: "- 1 \<le> u" and hi: "u \<le> 1"
    using d assms(3,4,5) by (simp_all add: u_def pos_le_divide_eq min_def split: if_splits)
  have blue: "hue2rgb (Fin m) (Fin M) (Fin (h - 1 / 3)) = Fin M"
    using lo hi by (intro hue2rgb_top) (simp_all add: hu)
  show ?thesis
  proof (cases "G < R")
    case True
    then have mG: "m = G" using assms(5) by simp
    have u0: "0 < u" using True d by (simp add: u_def)
    have "hue2rgb (Fin m) (Fin M) (Fin (h + 1 / 3)) = hue2rgb (Fin m) (Fin M) (Fin (h + 1 / 3 - 1))"
      using u0 hi by (intro hue2rgb_wrap_pos) (simp_all add: hu)
    also have "\<dots> = Fin (m + (M - m) * 6 * (h + 1 / 3 - 1))"
      using u0 hi by (intro hue2rgb_up) (simp_all add: hu)
    also have "m + (M - m) * 6 * (h + 1 / 3 - 1) = m + (M - m) * u"
      by (simp add: hu)
    also have "\<dots> = m + (R - G)"
      by (simp only: ud)
    finally have red: "hue2rgb (Fin m) (Fin M) (Fin (h + 1 / 3)) = Fin R"
      by (simp add: mG)
    have green: "hue2rgb (Fin m) (Fin M) (Fin h) = Fin G"
      unfolding mG [symmetric] using u0 hi by (intro hue2rgb_bottom) (simp_all add: hu)
    from red green blue show ?thesis by (simp add: assms(2))
  next
    case False
    then have mR: "m = R" using assms(5) by simp
    have u0: "u \<le> 0" using False d by (simp add: u_def divide_le_0_iff)
    have red: "hue2rgb (Fin m) (Fin M) (Fin (h + 1 / 3)) = Fin R"
      unfolding mR [symmetric] using u0 lo by (intro hue2rgb_bottom) (simp_all add: hu)
    have "hue2rgb (Fin m) (Fin M) (Fin h) = Fin (m + (M - m) * (2 / 3 - h) * 6)"
      using u0 lo by (intro hue2rgb_down) (simp_all add: hu)
    also have "m + (M - m) * (2 / 3 - h) * 6 = m - (M - m) * u"
      by (simp add: hu field_simps)
    also have "\<dots> = m - (R - G)"
      by (simp only: ud)
    finally have green: "hue2rgb (Fin m) (Fin M) (Fin h) = Fin G"
      by (simp add: mR)
    from red green blue show ?thesis by (simp add: assms(2))
  qed
qed


lemma chroma_q:
  fixes M m l s :: real
  assumes "0 \<le> m" and "m < M" and "M \<le> 1"
    and l: "l = (M + m) / 2"
    and s: "s = (if 1 / 2 < l then (M - m) / (2 - M - m) else (M - m) / (M + m))"
  shows "(if l < 1 / 2 then l * (1 + s) else l + s - l * s) = M" and "0 < s" and "s \<le> 1"
proof -
  have pos: "0 < M + m" "0 < 2 - M - m" using assms(1-3) by simp_all
  consider "l < 1 / 2" | "l = 1 / 2" | "1 / 2 < l" by linarith
  then show "(if l < 1 / 2 then l * (1 + s) else l + s - l * s) = M"
  proof cases
    case 1
    then have "s = (M - m) / (M + m)" by (simp add: s)
    then have "(M + m) * s = M - m" using pos by simp
    moreover have "l * (1 + s) = ((M + m) + (M + m) * s) / 2"
      by (simp add: l field_simps)
    ultimately have "l * (1 + s) = ((M + m) + (M - m)) / 2"
      by (simp only:)
    with 1 show ?thesis by simp
  next
    case 2
    then have one: "M + m = 1" by (simp add: l)
    with 2 have "s = M - m" by (simp add: s)
    moreover have "l + s - l * s = 1 / 2 + s / 2" unfolding 2 by simp
    moreover have "1 / 2 + (M - m) / 2 = M" using one by (simp add: field_simps)
    ultimately have "l + s - l * s = M" by simp
    with 2 show ?thesis by simp
  next
    case 3
    then have "s = (M - m) / (2 - M - m)" by (simp add: s)
    then have "(2 - M - m) * s = M - m" using pos by simp
    moreover have "l + s - l * s = (M + m) / 2 + ((2 - M - m) * s) / 2"
      by (simp add: l field_simps)
    ultimately have "l + s - l * s = (M + m) / 2 + (M - m) / 2" by simp
    moreover have "(M + m) / 2 + (M - m) / 2 = M" by (simp add: field_simps)
    ultimately have "l + s - l * s = M" by (simp only:)
    with 3 show ?thesis by simp
  qed
  show "0 < s" using pos assms(2) by (simp add: s)
  show "s \<le> 1" using pos assms(1-3) by (simp add: s)
qed


lemma hslToRgb_chromatic:
  assumes "s \<noteq> 0" and q: "q = (if l < 1 / 2 then l * (1 + s) else l + s - l * s)"
    and p: "p = 2 * l - q"
  shows "hslToRgb (Fin h) (Fin s) (Fin l) =
    (Math_round (js_mul (hue2rgb (Fin p) (Fin q) (Fin (h + 1 / 3))) (Fin 255)),
     Math_round (js_mul (hue2rgb (Fin p) (Fin q) (Fin h)) (Fin 255)),
     Math_round (js_mul (hue2rgb (Fin p) (Fin q) (Fin (h - 1 / 3))) (Fin 255)))"
  using assms(1) by (simp add: hslToRgb_def Let_def p q)

lemma roundtrip_unit:
  assumes "0 \<le> R" "R \<le> 1" "0 \<le> G" "G \<le> 1" "0 \<le> B" "B \<le> 1"
  shows "(case rgbToHsl (Fin (255 * R)) (Fin (255 * G)) (Fin (255 * B)) of
            (h, s, l) \<Rightarrow> hslToRgb h s l) =
         (Math_round (Fin (255 * R)), Math_round (Fin (255 * G)), Math_round (Fin (255 * B)))"
proof -
  define M where "M = max (max R G) B"
  define m where "m = min (min R G) B"
  show ?thesis
  proof (cases "m < M")
    case False
    then have eq: "R = B" "G = B"
      by (simp_all add: M_def m_def max_def min_def split: if_splits)
    have grey: "hslToRgb (Fin 0) (Fin 0) (Fin B) =
        (Math_round (Fin (255 * B)), Math_round (Fin (255 * B)), Math_round (Fin (255 * B)))"
      by (simp add: hslToRgb_def mult.commute)
    show ?thesis
      unfolding eq rgbToHsl_achromatic by (simp only: prod.case grey)
  next
    case True
    define l where "l = (M + m) / 2"
    define s where "s = (if 1 / 2 < l then (M - m) / (2 - M - m) else (M - m) / (M + m))"
    define h where "h = (if M = R then (G - B) / (M - m) + (if G < B then 6 else 0)
           else if M = G then (B - R) / (M - m) + 2
           else (R - G) / (M - m) + 4) / 6"
    have hsl: "rgbToHsl (Fin (255 * R)) (Fin (255 * G)) (Fin (255 * B)) = (Fin h, Fin s, Fin l)"
      unfolding h_def s_def l_def
      by (rule rgbToHsl_chromatic [OF assms M_def m_def True])
    have m0: "0 \<le> m" and M1: "M \<le> 1"
      using assms by (simp_all add: M_def m_def)
    note cq = chroma_q [OF m0 True M1 l_def s_def]
    have rgb: "hslToRgb (Fin h) (Fin s) (Fin l) =
      (Math_round (js_mul (hue2rgb (Fin m) (Fin M) (Fin (h + 1 / 3))) (Fin 255)),
       Math_round (js_mul (hue2rgb (Fin m) (Fin M) (Fin h)) (Fin 255)),
       Math_round (js_mul (hue2rgb (Fin m) (Fin M) (Fin (h - 1 / 3))) (Fin 255)))"
    proof (rule hslToRgb_chromatic)
      show "s \<noteq> 0" using cq(2) by simp
      show "M = (if l < 1 / 2 then l * (1 + s) else l + s - l * s)" using cq(1) by simp
      show "m = 2 * l - M" by (simp add: l_def field_simps)
    qed
    have le: "R \<le> M" "G \<le> M" "B \<le> M"
      by (simp_all add: M_def)
    have chan: "hue2rgb (Fin m) (Fin M) (Fin (h + 1 / 3)) = Fin R
      \<and> hue2rgb (Fin m) (Fin M) (Fin h) = Fin G
      \<and> hue2rgb (Fin m) (Fin M) (Fin (h - 1 / 3)) = Fin B"
    proof -
      have "M = R \<or> M = G \<or> M = B"
        by (simp add: M_def max_def)
      then consider "M = R" | "M \<noteq> R" "M = G" | "M \<noteq> R" "M \<noteq> G" "M = B"
        by blast
      then show ?thesis
      proof cases
        case 1
        have "m = min G B" using le 1 by (simp add: m_def min_def)
        moreover have "h = ((G - B) / (M - m) + (if G < B then 6 else 0)) / 6"
          using 1 by (simp add: h_def)
        ultimately show ?thesis
          using channels_max_R [OF True 1 le(2,3)] by blast
      next
        case 2
        have "m = min R B" using le 2 by (auto simp add: m_def min_def)
        moreover have "h = ((B - R) / (M - m) + 2) / 6"
          using 2 by (simp add: h_def)
        ultimately show ?thesis
          using channels_max_G [OF True 2(2) le(1,3)] by blast
      next
        case 3
        have "m = min R G" using le 3 by (auto simp add: m_def min_def)
        moreover have "h = ((R - G) / (M - m) + 4) / 6"
          using 3 by (simp add: h_def)
        ultimately show ?thesis
          using channels_max_B [OF True 3(3) le(1,2)] by blast
      qed
    qed
    have scale: "js_mul (Fin x) (Fin 255) = Fin (255 * x)" for x
      by (simp add: mult.commute)
    show ?thesis
      by (simp only: hsl rgb chan prod.case scale)
  qed
qed


lemma rgbToHsl_range:
  assumes "0 \<le> R" "R \<le> 1" "0 \<le> G" "G \<le> 1" "0 \<le> B" "B \<le> 1"
  shows "\<exists>h s l. rgbToHsl (Fin (255 * R)) (Fin (255 * G)) (Fin (255 * B)) = (Fin h, Fin s, Fin l)
    \<and> 0 \<le> h \<and> h < 1 \<and> 0 \<le> s \<and> s \<le> 1 \<and> 0 \<le> l \<and> l \<le> 1"
proof -
  define M where "M = max (max R G) B"
  define m where "m = min (min R G) B"
  show ?thesis
  proof (cases "m < M")
    case False
    then have eq: "R = B" "G = B"
      by (simp_all add: M_def m_def max_def min_def split: if_splits)
    show ?thesis
      unfolding eq rgbToHsl_achromatic using assms(5,6) by simp
  next
    case True
    define l where "l = (M + m) / 2"
    define s where "s = (if 1 / 2 < l then (M - m) / (2 - M - m) else (M - m) / (M + m))"
    define h where "h = (if M = R then (G - B) / (M - m) + (if G < B then 6 else 0)
           else if M = G then (B - R) / (M - m) + 2
           else (R - G) / (M - m) + 4) / 6"
    have hsl: "rgbToHsl (Fin (255 * R)) (Fin (255 * G)) (Fin (255 * B)) = (Fin h, Fin s, Fin l)"
      unfolding h_def s_def l_def
      by (rule rgbToHsl_chromatic [OF assms M_def m_def True])
    have m0: "0 \<le> m" and M1: "M \<le> 1"
      using assms by (simp_all add: M_def m_def)
    note cq = chroma_q [OF m0 True M1 l_def s_def]
    have l: "0 \<le> l" "l \<le> 1"
      using m0 M1 True by (simp_all add: l_def)
    have d: "0 < M - m" using True by simp
    have le: "R \<le> M" "G \<le> M" "B \<le> M" "m \<le> R" "m \<le> G" "m \<le> B"
      by (simp_all add: M_def m_def)
    have u: "- 1 \<le> (x - y) / (M - m) \<and> (x - y) / (M - m) \<le> 1"
      if "m \<le> x" "x \<le> M" "m \<le> y" "y \<le> M" for x y
      using that d by (simp add: pos_le_divide_eq pos_divide_le_eq)
    define a where "a = (G - B) / (M - m)"
    define b where "b = (B - R) / (M - m)"
    define c where "c = (R - G) / (M - m)"
    have neg: "a < 0" if "G < B"
      using that d by (simp add: a_def divide_neg_pos)
    have pos: "0 \<le> a" if "\<not> G < B"
      using that d by (simp add: a_def)
    have abc: "a \<le> 1" "- 1 \<le> a" "- 1 \<le> b" "b \<le> 1" "- 1 \<le> c" "c \<le> 1"
      using u [of G B] u [of B R] u [of R G] le by (simp_all add: a_def b_def c_def)
    have hd: "h = (if M = R then a + (if G < B then 6 else 0)
           else if M = G then b + 2 else c + 4) / 6"
      by (simp add: h_def a_def b_def c_def)
    have h: "0 \<le> h \<and> h < 1"
      unfolding hd using neg pos abc by auto
    show ?thesis
      using hsl h cq(2,3) l by simp
  qed
qed

section \<open>The round trip\<close>

text \<open>
  In exact arithmetic the conversion to HSL and back gives the channels themselves,
  before rounding; integer channels are their own rounding.
\<close>

lemma roundtrip_exact:
  fixes r g b :: int
  assumes "0 \<le> r" "r \<le> 255" "0 \<le> g" "g \<le> 255" "0 \<le> b" "b \<le> 255"
  shows "(case rgbToHsl (Fin (of_int r)) (Fin (of_int g)) (Fin (of_int b)) of
            (h, s, l) \<Rightarrow> hslToRgb h s l) =
         (Fin (of_int r), Fin (of_int g), Fin (of_int b))"
proof -
  have scale: "255 * (of_int k / 255) = (of_int k :: real)" for k
    by simp
  have rnd: "Math_round (Fin (of_int k)) = Fin (of_int k)" for k
    by simp
  have "(case rgbToHsl (Fin (255 * (of_int r / 255))) (Fin (255 * (of_int g / 255)))
            (Fin (255 * (of_int b / 255))) of (h, s, l) \<Rightarrow> hslToRgb h s l) =
         (Math_round (Fin (255 * (of_int r / 255))), Math_round (Fin (255 * (of_int g / 255))),
          Math_round (Fin (255 * (of_int b / 255))))"
    using assms by (intro roundtrip_unit) simp_all
  then show ?thesis
    by (simp only: scale rnd)
qed

text \<open>
  C4. For all integers \<open>r\<close>, \<open>g\<close>, \<open>b\<close> in \<open>[0, 255]\<close>, \<open>hslToRgb\<close> applied to the result of
  \<open>rgbToHsl(r, g, b)\<close> gives three finite numbers within 1 of \<open>r\<close>, \<open>g\<close> and \<open>b\<close>.
\<close>

theorem hsl_roundtrip:
  fixes r g b :: int
  assumes "0 \<le> r" "r \<le> 255" "0 \<le> g" "g \<le> 255" "0 \<le> b" "b \<le> 255"
  shows "case rgbToHsl (Fin (of_int r)) (Fin (of_int g)) (Fin (of_int b)) of
           (h, s, l) \<Rightarrow>
             (case hslToRgb h s l of
                (r', g', b') \<Rightarrow> within_one r' r \<and> within_one g' g \<and> within_one b' b)"
  using roundtrip_exact [OF assms]
  by (auto simp add: within_one_def split: prod.splits)

text \<open>
  Green, \<open>(0, 255, 0)\<close>, is \<open>(1/3, 1, 0.5)\<close> in HSL; the channels computed back from it
  are within 1 of 0, 255 and 0.
\<close>

theorem hsl_roundtrip_witness:
  "within_one (fst (hslToRgb (Fin (1 / 3)) (Fin 1) (Fin (1 / 2)))) 0
   \<and> within_one (fst (snd (hslToRgb (Fin (1 / 3)) (Fin 1) (Fin (1 / 2))))) 255
   \<and> within_one (snd (snd (hslToRgb (Fin (1 / 3)) (Fin 1) (Fin (1 / 2))))) 0"
  using hsl_roundtrip [of 0 255 0]
  by (simp add: rgbToHsl_green split: prod.splits)

section \<open>The range of the colour state\<close>

lemma in_unit_Fin [simp]: "in_unit (Fin v) = (0 \<le> v \<and> v \<le> 1)"
  by (simp add: in_unit_def)

lemma channel_ok_Fin [simp]: "channel_ok (Fin v) = (0 \<le> v \<and> v \<le> 255)"
  by (simp add: channel_ok_def)

lemma index_of_less: "index_of c xs = Some i \<Longrightarrow> i < length xs"
  by (induction xs arbitrary: i) (auto split: if_splits)

lemma hexDigitValue_less:
  assumes "hexDigitValue c = Some v"
  shows "v < 16"
proof (cases "index_of c ''0123456789abcdef''")
  case (Some i)
  with assms have "v = i" by (simp only: hexDigitValue_def option.case option.inject)
  with index_of_less [OF Some] show ?thesis by simp
next
  case None
  with assms obtain j where j: "index_of c ''ABCDEF'' = Some j" "v = 10 + j"
    by (cases "index_of c ''ABCDEF''") (simp_all only: hexDigitValue_def option.case option.map
        option.inject option.distinct)
  with index_of_less [OF j(1)] show ?thesis by simp
qed

lemma parseInt16_byte:
  assumes "is_hex c1" "is_hex c2"
  shows "\<exists>n. parseInt16 [c1, c2] = Fin (real n) \<and> n \<le> 255"
proof -
  from assms obtain v1 v2 where v: "hexDigitValue c1 = Some v1" "hexDigitValue c2 = Some v2"
    by (auto simp add: is_hex_def)
  then have "v1 < 16" "v2 < 16" by (auto dest: hexDigitValue_less)
  then have "16 * v1 + v2 \<le> 255" by simp
  moreover have "parseInt16 [c1, c2] = Fin (real (16 * v1 + v2))"
    using assms v by (simp add: parseInt16_def)
  ultimately show ?thesis by blast
qed

lemma two_of_hex:
  assumes "list_all is_hex body" "k + 2 \<le> length body"
  shows "\<exists>c1 c2. take 2 (drop k body) = [c1, c2] \<and> is_hex c1 \<and> is_hex c2"
proof -
  have len: "length (take 2 (drop k body)) = 2" using assms(2) by simp
  then obtain c1 c2 where t: "take 2 (drop k body) = [c1, c2]"
    by (cases "take 2 (drop k body)"; cases "tl (take 2 (drop k body))") auto
  have "set (take 2 (drop k body)) \<subseteq> set body"
    by (meson set_drop_subset set_take_subset subset_trans)
  with t assms(1) show ?thesis by (auto simp add: list_all_iff)
qed

lemma channel_of_hex:
  assumes "list_all is_hex body" "k + 2 \<le> length body"
  shows "\<exists>n. parseInt16 (take 2 (drop k body)) = Fin (real n) \<and> n \<le> 255"
  using two_of_hex [OF assms] parseInt16_byte by metis

lemma hexToRgb_gamut: "rgba_in_gamut (hexToRgb hex)"
proof (cases "hex_groups hex")
  case None
  then show ?thesis by (simp add: hexToRgb_def rgba_in_gamut_def)
next
  case (Some body)
  then have hexes: "list_all is_hex body" and len: "length body = 6 \<or> length body = 8"
    by (auto simp add: hex_groups_def Let_def split: if_splits)
  from len have l6: "0 + 2 \<le> length body" "2 + 2 \<le> length body" "4 + 2 \<le> length body"
    by auto
  obtain r where r: "parseInt16 (take 2 (drop 0 body)) = Fin (real r)" "r \<le> 255"
    using channel_of_hex [OF hexes l6(1)] by blast
  obtain g where g: "parseInt16 (take 2 (drop 2 body)) = Fin (real g)" "g \<le> 255"
    using channel_of_hex [OF hexes l6(2)] by blast
  obtain b where b: "parseInt16 (take 2 (drop 4 body)) = Fin (real b)" "b \<le> 255"
    using channel_of_hex [OF hexes l6(3)] by blast
  show ?thesis
  proof (cases "length body = 8")
    case True
    then obtain a where a: "parseInt16 (take 2 (drop 6 body)) = Fin (real a)" "a \<le> 255"
      using channel_of_hex [OF hexes, of 6] by auto
    with r g b True Some show ?thesis
      by (simp add: hexToRgb_def rgba_in_gamut_def)
  next
    case False
    with r g b Some show ?thesis
      by (simp add: hexToRgb_def rgba_in_gamut_def)
  qed
qed


lemma hsla_ok:
  assumes "rgba_in_gamut c"
  shows "color_ok (hsla_of_rgba c)"
proof -
  obtain r g b a where c: "c = (r, g, b, a)" by (cases c) auto
  from assms c obtain x y z where fin: "r = Fin x" "g = Fin y" "b = Fin z"
    and range: "0 \<le> x" "x \<le> 255" "0 \<le> y" "y \<le> 255" "0 \<le> z" "z \<le> 255" and a: "in_unit a"
    by (auto simp add: rgba_in_gamut_def channel_ok_def split: jsnum.splits)
  have "\<exists>h s l. rgbToHsl (Fin (255 * (x / 255))) (Fin (255 * (y / 255))) (Fin (255 * (z / 255)))
      = (Fin h, Fin s, Fin l) \<and> 0 \<le> h \<and> h < 1 \<and> 0 \<le> s \<and> s \<le> 1 \<and> 0 \<le> l \<and> l \<le> 1"
    using range by (intro rgbToHsl_range) simp_all
  then obtain h s l where "rgbToHsl (Fin x) (Fin y) (Fin z) = (Fin h, Fin s, Fin l)"
    and "0 \<le> h" "h < 1" "0 \<le> s" "s \<le> 1" "0 \<le> l" "l \<le> 1"
    by auto
  with a show ?thesis
    by (simp add: hsla_of_rgba_def c fin color_ok_def)
qed

lemma render_ok: "picker_ok st \<Longrightarrow> picker_ok (render st)"
  by (simp add: picker_ok_def render_def snapshot_ok_def)

lemma assign_ok: "picker_ok st \<Longrightarrow> snapshot_ok snapshot \<Longrightarrow> picker_ok (assign_colorState snapshot st)"
  by (cases snapshot) (simp_all add: picker_ok_def assign_colorState_def snapshot_ok_def)

lemma colorState_update_ok:
  "picker_ok st \<Longrightarrow> color_ok c \<Longrightarrow> picker_ok (st\<lparr>colorState := c\<rparr>)"
  by (simp add: picker_ok_def)

lemma setEditMode_ok:
  assumes "picker_ok st"
    and "mode = Background \<Longrightarrow>
      rgba_in_gamut (parseColor (JString (comparisonBackground_backgroundColor d)))"
  shows "picker_ok (setEditMode d mode st)"
proof -
  have st1: "picker_ok (st\<lparr>editMode := mode\<rparr>)"
    using assms(1) by (simp add: picker_ok_def)
  show ?thesis
  proof (cases mode)
    case Background
    with assms(2) st1 show ?thesis
      by (simp add: setEditMode_def Let_def render_ok colorState_update_ok hsla_ok)
  next
    case Swatch
    have "snapshot_ok (swatchStateCache (st\<lparr>editMode := mode\<rparr>))"
      using assms(1) by (simp add: picker_ok_def)
    with Swatch st1 show ?thesis
      by (simp add: setEditMode_def Let_def render_ok assign_ok)
  qed
qed

lemma initialize_ok: "picker_ok st \<Longrightarrow> picker_ok (initialize d st)"
proof -
  assume ok: "picker_ok st"
  have "picker_ok (st\<lparr>wheel_width := w, lightnessSlider_width := w\<rparr>)" if "0 < w" for w
    using ok that by (simp add: picker_ok_def)
  then show ?thesis
    using ok by (simp add: initialize_def Let_def render_ok)
qed

lemma open_ok:
  assumes "0 < wheel_width st" and "0 < lightnessSlider_width st" and "config_ok cfg"
  shows "picker_ok (open_picker d cfg st)"
proof -
  let ?cur = "hsla_of_rgba (parseColor (currentColor cfg))"
  let ?st1 = "st\<lparr>colorState := ?cur, previousColorState := Some ?cur,
      swatchStateCache := Some ?cur,
      originalColorState := Some (hsla_of_rgba (parseColor (originalColor cfg))),
      onConfirmCallback := onConfirm cfg, is_open := True\<rparr>"
  have "picker_ok ?st1"
    using assms by (simp add: picker_ok_def snapshot_ok_def config_ok_def hsla_ok)
  then have "picker_ok (setEditMode d Swatch ?st1)"
    by (rule setEditMode_ok) simp
  then have "picker_ok (initialize d (setEditMode d Swatch ?st1))"
    by (rule initialize_ok)
  then show ?thesis
    by (simp add: open_picker_def Let_def)
qed

lemma confirm_ok: "picker_ok st \<Longrightarrow> picker_ok (confirm oc st)"
  by (simp add: picker_ok_def confirm_def close_def Let_def split: option.split outcome.split)

lemma wheel_hue_ok: "in_unit (js_rem (Fin (atan2 dy dx / (2 * pi) + 1)) (Fin 1))"
proof -
  have "- pi < atan2 dy dx" using atan2_bounds by blast
  then have "- 1 < atan2 dy dx / pi"
    using pi_gt_zero by (simp add: pos_less_divide_eq)
  then have nonneg: "0 \<le> atan2 dy dx / (2 * pi) + 1"
    by simp
  show ?thesis
    unfolding js_rem_one [OF nonneg] in_unit_Fin
    using frac_ge_0 [of "atan2 dy dx / (2 * pi) + 1"] frac_lt_1 [of "atan2 dy dx / (2 * pi) + 1"]
    by (simp add: less_imp_le)
qed

lemma wheel_sat_ok:
  assumes "0 < R" and "0 \<le> v"
  shows "in_unit (js_div (Fin (if R < v then R else v)) (Fin R))"
  using assms by simp

lemma wheel_color_ok:
  assumes "color_ok c" and "in_unit hh" and "in_unit ss"
  shows "color_ok
    (if js_eq (cs_l (c\<lparr>cs_h := hh, cs_s := ss\<rparr>)) (Fin 1)
        \<or> js_eq (cs_l (c\<lparr>cs_h := hh, cs_s := ss\<rparr>)) (Fin 0)
     then c\<lparr>cs_h := hh, cs_s := ss, cs_l := Fin (1 / 2)\<rparr>
     else c\<lparr>cs_h := hh, cs_s := ss\<rparr>)"
  using assms by (simp add: color_ok_def)

lemma handleWheelMove_ok:
  assumes "picker_ok st"
  shows "picker_ok (handleWheelMove d coords st)"
proof -
  have R: "0 < real (wheel_width st) / 2" using assms by (simp add: picker_ok_def)
  have c: "color_ok (colorState st)" using assms by (simp add: picker_ok_def)
  have v: "0 \<le> sqrt (x * x + y * y)" for x y :: real
    by simp
  show ?thesis
    unfolding handleWheelMove_def Let_def
    by (intro render_ok colorState_update_ok assms wheel_color_ok c wheel_hue_ok
        wheel_sat_ok R v)
qed

lemma handleLightnessMove_ok:
  assumes "picker_ok st"
  shows "picker_ok (handleLightnessMove d coords st)"
proof -
  have w: "0 < real (lightnessSlider_width st)" using assms by (simp add: picker_ok_def)
  have c: "color_ok (colorState st)" using assms by (simp add: picker_ok_def)
  show ?thesis
    unfolding handleLightnessMove_def Let_def
    using c w
    by (intro render_ok colorState_update_ok assms) (simp add: color_ok_def)
qed


lemma key_hue_ok:
  assumes "in_unit x"
  shows "in_unit (js_rem (js_add (js_sub x (key_step shiftKey)) (Fin 1)) (Fin 1))"
    and "in_unit (js_rem (js_add x (key_step shiftKey)) (Fin 1))"
proof -
  from assms obtain v where x: "x = Fin v" and v: "0 \<le> v" "v \<le> 1"
    by (cases x) (simp_all add: in_unit_def)
  define k :: real where "k = (if shiftKey then 5 / 100 else 1 / 100)"
  have k: "key_step shiftKey = Fin k" "0 < k" "k \<le> 1"
    by (simp_all add: k_def key_step_def)
  have left: "0 \<le> v - k + 1" and right: "0 \<le> v + k"
    using v k by simp_all
  show "in_unit (js_rem (js_add (js_sub x (key_step shiftKey)) (Fin 1)) (Fin 1))"
    unfolding x k js_sub.simps js_add.simps js_rem_one [OF left] in_unit_Fin
    using frac_ge_0 [of "v - k + 1"] frac_lt_1 [of "v - k + 1"] by (simp add: less_imp_le)
  show "in_unit (js_rem (js_add x (key_step shiftKey)) (Fin 1))"
    unfolding x k js_add.simps js_rem_one [OF right] in_unit_Fin
    using frac_ge_0 [of "v + k"] frac_lt_1 [of "v + k"] by (simp add: less_imp_le)
qed

lemma key_clamp_ok:
  assumes "in_unit x"
  shows "in_unit (Math_min (Fin 1) (js_add x (key_step shiftKey)))"
    and "in_unit (Math_max (Fin 0) (js_sub x (key_step shiftKey)))"
proof -
  from assms obtain v where x: "x = Fin v" and v: "0 \<le> v" "v \<le> 1"
    by (cases x) (simp_all add: in_unit_def)
  define k :: real where "k = (if shiftKey then 5 / 100 else 1 / 100)"
  have k: "key_step shiftKey = Fin k" "0 < k" "k \<le> 1"
    by (simp_all add: k_def key_step_def)
  show "in_unit (Math_min (Fin 1) (js_add x (key_step shiftKey)))"
    using v k by (simp add: x)
  show "in_unit (Math_max (Fin 0) (js_sub x (key_step shiftKey)))"
    using v k by (simp add: x)
qed

lemma wheel_keydown_ok:
  assumes "picker_ok st"
  shows "picker_ok (wheel_keydown shiftKey k st)"
proof -
  have c: "color_ok (colorState st)" using assms by (simp add: picker_ok_def)
  then have "color_ok ((colorState st)\<lparr>cs_h := js_rem (js_add (js_sub (cs_h (colorState st)) (key_step shiftKey)) (Fin 1)) (Fin 1)\<rparr>)"
    and "color_ok ((colorState st)\<lparr>cs_h := js_rem (js_add (cs_h (colorState st)) (key_step shiftKey)) (Fin 1)\<rparr>)"
    and "color_ok ((colorState st)\<lparr>cs_s := Math_min (Fin 1) (js_add (cs_s (colorState st)) (key_step shiftKey))\<rparr>)"
    and "color_ok ((colorState st)\<lparr>cs_s := Math_max (Fin 0) (js_sub (cs_s (colorState st)) (key_step shiftKey))\<rparr>)"
    by (simp_all add: color_ok_def key_hue_ok key_clamp_ok)
  then show ?thesis
    using assms by (cases k) (simp_all add: wheel_keydown_def Let_def render_ok colorState_update_ok)
qed

lemma lightness_keydown_ok:
  assumes "picker_ok st"
  shows "picker_ok (lightness_keydown shiftKey k st)"
proof -
  have c: "color_ok (colorState st)" using assms by (simp add: picker_ok_def)
  then have "color_ok ((colorState st)\<lparr>cs_l := Math_min (Fin 1) (js_add (cs_l (colorState st)) (key_step shiftKey))\<rparr>)"
    and "color_ok ((colorState st)\<lparr>cs_l := Math_max (Fin 0) (js_sub (cs_l (colorState st)) (key_step shiftKey))\<rparr>)"
    by (simp_all add: color_ok_def key_clamp_ok)
  then show ?thesis
    using assms by (cases k) (simp_all add: lightness_keydown_def Let_def render_ok colorState_update_ok)
qed

lemma flag_ok:
  "picker_ok st \<Longrightarrow> picker_ok (st\<lparr>isDraggingWheel := w\<rparr>)"
  "picker_ok st \<Longrightarrow> picker_ok (st\<lparr>isDraggingLightness := l\<rparr>)"
  by (simp_all add: picker_ok_def)

lemma step_ok:
  assumes "picker_ok st" and "event_ok d e"
  shows "picker_ok (step d e st)"
proof (cases e)
  case (Open cfg)
  from assms(1) have "0 < wheel_width st" and "0 < lightnessSlider_width st"
    by (simp_all add: picker_ok_def)
  with Open assms(2) show ?thesis by (simp add: open_ok)
next
  case (OverlayClick oc)
  with assms show ?thesis by (simp add: confirm_ok)
next
  case (WheelPointerDown coords)
  with assms show ?thesis by (simp add: handleWheelMove_ok flag_ok)
next
  case (LightnessPointerDown coords)
  with assms show ?thesis by (simp add: handleLightnessMove_ok flag_ok)
next
  case (PointerMove coords)
  with assms show ?thesis by (simp add: Let_def handleWheelMove_ok handleLightnessMove_ok)
next
  case PointerUp
  with assms show ?thesis by (simp add: picker_ok_def)
next
  case (AlphaInput v)
  with assms have "color_ok ((colorState st)\<lparr>cs_a := v\<rparr>)"
    by (simp add: picker_ok_def color_ok_def)
  with AlphaInput assms show ?thesis by (simp add: render_ok colorState_update_ok)
next
  case (WheelKeydown shiftKey k)
  with assms show ?thesis by (simp add: wheel_keydown_ok)
next
  case (LightnessKeydown shiftKey k)
  with assms show ?thesis by (simp add: lightness_keydown_ok)
next
  case OriginalSwatchClick
  with assms show ?thesis by (simp add: render_ok assign_ok picker_ok_def [of st])
next
  case RestoreClick
  with assms show ?thesis by (simp add: render_ok assign_ok picker_ok_def [of st])
next
  case ChangeBgClick
  with assms show ?thesis by (simp add: setEditMode_ok)
next
  case (EyeDropperResult hex)
  obtain r g b a where h: "hexToRgb hex = (r, g, b, a)" by (cases "hexToRgb hex") auto
  with hexToRgb_gamut [of hex] have "rgba_in_gamut (r, g, b, Fin 1)"
    by (simp add: rgba_in_gamut_def)
  then have "color_ok (hsla_of_rgba (r, g, b, Fin 1))" by (rule hsla_ok)
  with EyeDropperResult assms h show ?thesis by (simp add: render_ok colorState_update_ok)
next
  case WindowResize
  with assms show ?thesis by (simp add: initialize_ok)
qed

lemma run_ok:
  "picker_ok st \<Longrightarrow> list_all (\<lambda>de. event_ok (fst de) (snd de)) es \<Longrightarrow> picker_ok (run es st)"
proof (induction es arbitrary: st)
  case Nil
  then show ?case by simp
next
  case (Cons de es)
  obtain d e where de: "de = (d, e)" by (cases de)
  with Cons.prems have "picker_ok (step d e st)" and "list_all (\<lambda>de. event_ok (fst de) (snd de)) es"
    by (simp_all add: step_ok)
  then show ?case
    using Cons.IH by (simp add: de)
qed

lemma parseColor_gamut:
  assumes "\<not> rgb_with_three_numbers str"
  shows "rgba_in_gamut (parseColor (JString str))"
proof (cases "take 1 str = ''#''")
  case True
  with assms show ?thesis
    using hexToRgb_gamut [of str]
    by (auto simp add: parseColor_def rgb_with_three_numbers_def Let_def)
next
  case False
  with assms show ?thesis
    by (auto simp add: parseColor_def rgb_with_three_numbers_def Let_def rgba_in_gamut_def)
qed

text \<open>
  C3, as amended. From a call of \<open>open\<close> whose two colour strings parse to channels in
  \<open>[0, 255]\<close> and an alpha in \<open>[0, 1]\<close>, on canvases of non-zero width, and through every
  sequence of events in range (pointer moves on the wheel and the slider, keyboard
  steps, alpha inputs in \<open>[0, 1]\<close>, mode switches over a background colour in gamut,
  restores, eyedropper picks, resizes, confirms, further calls of \<open>open\<close> in gamut), the
  four fields of the live colour are finite numbers of \<open>[0, 1]\<close>: never \<open>NaN\<close>, never
  undefined. Every string that is not an \<open>rgb\<close>-prefixed string with three numbers
  parses in gamut (\<open>parseColor_gamut\<close>), every \<open>#RRGGBB\<close> and \<open>#RRGGBBAA\<close> among them.
\<close>

theorem color_state_invariant:
  assumes "0 < wheel_width st" and "0 < lightnessSlider_width st"
    and "config_ok cfg" and "list_all (\<lambda>de. event_ok (fst de) (snd de)) es"
  shows "color_ok (colorState (run es (open_picker d cfg st)))"
  using run_ok [OF open_ok [OF assms(1-3)] assms(4)] by (simp add: picker_ok_def)

text \<open>
  C3 as stated fails: the parser does not clamp, and neither does \<open>rgbToHsl\<close>. The string
  \<open>rgb(300, 0, 0)\<close> parses to \<open>[300, 0, 0, 1]\<close>, and \<open>open\<close> leaves the live colour with
  saturation \<open>10/7\<close>.
\<close>

theorem color_state_invariant_counterexample:
  "colorState (open_picker example_dom
      \<lparr>originalColor = JString ''#FF0000'', currentColor = JString ''rgb(300, 0, 0)'',
       onConfirm = Some 7\<rparr> (initial_picker 300 300))
    = \<lparr>cs_h = Fin 0, cs_s = Fin (10 / 7), cs_l = Fin (10 / 17), cs_a = Fin 1\<rparr>
   \<and> \<not> color_ok (colorState (open_picker example_dom
      \<lparr>originalColor = JString ''#FF0000'', currentColor = JString ''rgb(300, 0, 0)'',
       onConfirm = Some 7\<rparr> (initial_picker 300 300)))"
proof -
  have p: "parseColor (JString ''rgb(300, 0, 0)'') = (Fin 300, Fin 0, Fin 0, Fin 1)"
    by (simp add: parseColor_def is_num_char_def is_digit_def to_number_def)
  have h: "rgbToHsl (Fin 300) (Fin 0) (Fin 0) = (Fin 0, Fin (10 / 7), Fin (10 / 17))"
    by (simp add: rgbToHsl_def Let_def)
  have "colorState (open_picker example_dom
      \<lparr>originalColor = JString ''#FF0000'', currentColor = JString ''rgb(300, 0, 0)'',
       onConfirm = Some 7\<rparr> (initial_picker 300 300))
    = \<lparr>cs_h = Fin 0, cs_s = Fin (10 / 7), cs_l = Fin (10 / 17), cs_a = Fin 1\<rparr>"
    by (simp add: open_defs hsla_of_rgba_def p h example_dom_def)
  then show ?thesis by (simp add: color_ok_def)
qed

text \<open>
  The session of the end-to-end example, through a keyboard step, an alpha input, a
  switch to the white background and a pointer press far outside the wheel.
\<close>

theorem color_state_invariant_witness:
  "config_ok green_config
   \<and> color_ok (colorState
      (run [(example_dom, WheelKeydown False ArrowLeft), (example_dom, AlphaInput (Fin (1 / 4))),
            (example_dom, ChangeBgClick), (example_dom, WheelPointerDown (1000, 170))]
        (open_picker example_dom green_config (initial_picker 300 300))))"
proof -
  have cfg: "config_ok green_config"
    by (simp add: config_ok_def green_config_def hexToRgb_gamut parseColor_def)
  have bg: "parseColor (JString ''rgb(255, 255, 255)'') = (Fin 255, Fin 255, Fin 255, Fin 1)"
    by (simp add: parseColor_def is_num_char_def is_digit_def to_number_def)
  have ev: "list_all (\<lambda>de. event_ok (fst de) (snd de))
      [(example_dom, WheelKeydown False ArrowLeft), (example_dom, AlphaInput (Fin (1 / 4))),
       (example_dom, ChangeBgClick), (example_dom, WheelPointerDown (1000, 170))]"
    by (simp add: example_dom_def bg rgba_in_gamut_def)
  have w: "0 < wheel_width (initial_picker 300 300)" "0 < lightnessSlider_width (initial_picker 300 300)"
    by (simp_all add: initial_picker_def)
  show ?thesis
    using color_state_invariant [OF w cfg ev, of example_dom] cfg by simp
qed

end
